theory Spec2Isabelle
  imports Main "HOL-Library.Sublist"
begin

section \<open>Python values used by \<open>app.py\<close>\<close>

text \<open>
  A Python \<open>str\<close> is a sequence of Unicode code points, and \<open>len\<close>, slicing and
  \<open>strip\<close> count code points. A string is therefore a list of code points (natural
  numbers); \<open>lit\<close> turns an ASCII literal of the source into such a list.
\<close>

type_synonym pystr = "nat list"

definition lit :: "string \<Rightarrow> pystr" where
  "lit s = map of_char s"

text \<open>
  \<open>str.isspace\<close> for one code point: the table of CPython's
  \<open>_PyUnicode_IsWhitespace\<close>.
\<close>

definition isspace :: "nat \<Rightarrow> bool" where
  "isspace c \<longleftrightarrow>
     (9 \<le> c \<and> c \<le> 13) \<or> (28 \<le> c \<and> c \<le> 32) \<or> c = 133 \<or> c = 160 \<or> c = 5760 \<or>
     (8192 \<le> c \<and> c \<le> 8202) \<or> c = 8232 \<or> c = 8233 \<or> c = 8239 \<or> c = 8287 \<or> c = 12288"

text \<open>\<open>s.strip()\<close>: leading and trailing whitespace removed.\<close>

definition strip :: "pystr \<Rightarrow> pystr" where
  "strip s = rev (dropWhile isspace (rev (dropWhile isspace s)))"

text \<open>\<open>sub in s\<close> for strings: \<open>sub\<close> occurs as a contiguous run of \<open>s\<close>.\<close>

fun py_in :: "pystr \<Rightarrow> pystr \<Rightarrow> bool" where
  "py_in sub [] = (sub = [])"
| "py_in sub (c # cs) = (prefix sub (c # cs) \<or> py_in sub cs)"

text \<open>\<open>str(n)\<close> for a non-negative integer: its decimal digits.\<close>

fun str_nat :: "nat \<Rightarrow> pystr" where
  "str_nat n = (if n < 10 then [48 + n] else str_nat (n div 10) @ [48 + n mod 10])"

declare str_nat.simps [simp del]

section \<open>Session state and job history\<close>

text \<open>
  A result record is a Python \<open>dict\<close> from strings to strings; dictionaries keep
  insertion order, so a record is an association list.
\<close>

type_synonym result_record = "(pystr \<times> pystr) list"

text \<open>The dictionary that \<open>add_to_history\<close> builds, one field per key.\<close>

record history_entry =
  entry_url :: pystr
  entry_fetcher :: pystr
  entry_selector :: pystr
  entry_count :: nat
  entry_status :: pystr
  entry_time :: pystr

text \<open>
  \<open>st.session_state\<close>: \<open>results\<close> starts as \<open>None\<close>, \<open>last_url\<close> as the empty string
  and \<open>history\<close> as the empty list.
\<close>

record session_state =
  results :: "result_record list option"
  last_url :: pystr
  history :: "history_entry list"

definition initial_state :: session_state where
  "initial_state = \<lparr>results = None, last_url = [], history = []\<rparr>"

text \<open>\<open>s[:n] + "..." if len(s) > n else s\<close>, the shortening of both display fields.\<close>

definition shorten :: "nat \<Rightarrow> pystr \<Rightarrow> pystr" where
  "shorten n s = (if length s > n then take n s @ lit ''...'' else s)"

text \<open>
  \<open>add_to_history\<close>. The wall-clock time \<open>datetime.now().strftime("%H:%M:%S")\<close> is an
  input of the model (\<open>now\<close>). The entry is inserted at index 0 and the list is then
  cut to \<open>history[:20]\<close>.
\<close>

definition new_entry ::
  "pystr \<Rightarrow> pystr \<Rightarrow> pystr \<Rightarrow> pystr \<Rightarrow> nat \<Rightarrow> pystr \<Rightarrow> history_entry" where
  "new_entry now url fetcher selector count status =
     \<lparr>entry_url = shorten 50 url,
      entry_fetcher = fetcher,
      entry_selector = shorten 30 selector,
      entry_count = count,
      entry_status = status,
      entry_time = now\<rparr>"

definition add_to_history ::
  "pystr \<Rightarrow> session_state \<Rightarrow> pystr \<Rightarrow> pystr \<Rightarrow> pystr \<Rightarrow> nat \<Rightarrow> pystr \<Rightarrow> session_state" where
  "add_to_history now st url fetcher selector count status =
     st\<lparr>history := take 20 (new_entry now url fetcher selector count status # history st)\<rparr>"

section \<open>Matched elements and the fetching library\<close>

text \<open>
  What the loop of \<open>scrape\<close> reads of a matched element \<open>el\<close>:
  \<^item> \<open>el_text\<close>: \<open>None\<close> when \<open>hasattr(el, "text")\<close> is false, otherwise the value
    of \<open>el.text\<close>, which is a string or Python's \<open>None\<close>;
  \<^item> \<open>el_html\<close>: \<open>None\<close> when \<open>hasattr(el, "html")\<close> is false, otherwise the
    string \<open>el.html\<close>;
  \<^item> \<open>el_str\<close>: \<open>str(el)\<close>.
\<close>

record element =
  el_text :: "pystr option option"
  el_html :: "pystr option"
  el_str :: pystr

text \<open>Option values are integers (the timeout) or booleans (the check boxes).\<close>

datatype pyval = PyInt int | PyBool bool

type_synonym options = "pystr \<rightharpoonup> pyval"

text \<open>\<open>options.get(key, default)\<close>.\<close>

definition options_get :: "options \<Rightarrow> pystr \<Rightarrow> pyval \<Rightarrow> pyval" where
  "options_get opts k d = (case opts k of None \<Rightarrow> d | Some v \<Rightarrow> v)"

text \<open>
  An exception caught by \<open>except Exception as exc\<close>; all that \<open>scrape\<close> uses of it is
  \<open>str(exc)\<close>.
\<close>

datatype exn = Exn pystr

fun exn_str :: "exn \<Rightarrow> pystr" where
  "exn_str (Exn msg) = msg"

text \<open>
  The external library. A page answers a CSS and an XPath query with the matched
  elements, or raises. The three fetch entry points take the url and their keyword
  arguments in the order the source writes them, and return a page or raise.
\<close>

record page =
  page_css :: "pystr \<Rightarrow> exn + element list"
  page_xpath :: "pystr \<Rightarrow> exn + element list"

record fetchers =
  Fetcher_get :: "pystr \<Rightarrow> pyval \<Rightarrow> pyval \<Rightarrow> exn + page"
  StealthyFetcher_fetch :: "pystr \<Rightarrow> pyval \<Rightarrow> pyval \<Rightarrow> pyval \<Rightarrow> exn + page"
  DynamicFetcher_fetch :: "pystr \<Rightarrow> pyval \<Rightarrow> pyval \<Rightarrow> exn + page"

text \<open>The calls \<open>scrape\<close> makes to the library, recorded in the order it makes them.\<close>

datatype call =
    Call_Fetcher_get pystr pyval pyval
  | Call_StealthyFetcher_fetch pystr pyval pyval pyval
  | Call_DynamicFetcher_fetch pystr pyval pyval
  | Call_css pystr
  | Call_xpath pystr

section \<open>\<open>scrape\<close>\<close>

text \<open>
  The \<open>if\<close>/\<open>elif\<close> chain on \<open>fetcher_type\<close>: the call made and what it returned, or
  no call at all for a name that is none of the three.
\<close>

datatype fetch_outcome = Unknown_fetcher | Fetched call "exn + page"

definition dispatch :: "fetchers \<Rightarrow> pystr \<Rightarrow> pystr \<Rightarrow> options \<Rightarrow> fetch_outcome" where
  "dispatch F url fetcher_type opts =
     (if fetcher_type = lit ''Fetcher'' then
        (let timeout = options_get opts (lit ''timeout'') (PyInt 30)
         in Fetched (Call_Fetcher_get url (PyBool True) timeout)
                    (Fetcher_get F url (PyBool True) timeout))
      else if fetcher_type = lit ''StealthyFetcher'' then
        (let headless = options_get opts (lit ''headless'') (PyBool True);
             solve_cloudflare = options_get opts (lit ''solve_cloudflare'') (PyBool False)
         in Fetched (Call_StealthyFetcher_fetch url headless solve_cloudflare (PyBool True))
                    (StealthyFetcher_fetch F url headless solve_cloudflare (PyBool True)))
      else if fetcher_type = lit ''DynamicFetcher'' then
        (let headless = options_get opts (lit ''headless'') (PyBool True);
             network_idle = options_get opts (lit ''network_idle'') (PyBool True)
         in Fetched (Call_DynamicFetcher_fetch url headless network_idle)
                    (DynamicFetcher_fetch F url headless network_idle))
      else Unknown_fetcher)"

text \<open>\<open>page.css(selector)\<close> when \<open>selector_type\<close> is \<open>"CSS"\<close>, \<open>page.xpath(selector)\<close> otherwise.\<close>

definition query :: "page \<Rightarrow> pystr \<Rightarrow> pystr \<Rightarrow> call \<times> (exn + element list)" where
  "query pg selector selector_type =
     (if selector_type = lit ''CSS'' then (Call_css selector, page_css pg selector)
      else (Call_xpath selector, page_xpath pg selector))"

text \<open>
  The body of \<open>for el in elements\<close>: \<open>data\<close> after the iteration for \<open>el\<close>.
  \<open>if text and text.strip()\<close> holds for a string that is non-empty and whose strip is
  non-empty; \<open>text.strip() if text else ""\<close> strips a non-empty string.
\<close>

definition scrape_step :: "pystr \<Rightarrow> result_record list \<Rightarrow> element \<Rightarrow> result_record list" where
  "scrape_step selector data el =
     (if py_in (lit ''::text'') selector then
        (let text = (case el_text el of Some v \<Rightarrow> v | None \<Rightarrow> Some (el_str el))
         in case text of
              None \<Rightarrow> data
            | Some t \<Rightarrow>
                if t \<noteq> [] \<and> strip t \<noteq> [] then data @ [[(lit ''text'', strip t)]] else data)
      else if py_in (lit ''::attr('') selector then
        data @ [[(lit ''value'', el_str el)]]
      else
        (let text = (case el_text el of Some v \<Rightarrow> v | None \<Rightarrow> Some []);
             html = (case el_html el of Some h \<Rightarrow> h | None \<Rightarrow> el_str el)
         in data @ [[(lit ''text'', (case text of None \<Rightarrow> [] | Some t \<Rightarrow> if t \<noteq> [] then strip t else [])),
                     (lit ''html'', take 200 html)]]))"

fun scrape_loop :: "pystr \<Rightarrow> element list \<Rightarrow> result_record list \<Rightarrow> result_record list" where
  "scrape_loop selector [] data = data"
| "scrape_loop selector (el # els) data = scrape_loop selector els (scrape_step selector data el)"

text \<open>
  \<open>scrape\<close> with the calls it made: the \<open>try\<close> block runs the dispatch, the query and
  the loop; an exception raised by the fetch or by the query leaves it for the
  \<open>except\<close> clause, which returns \<open>(False, [], str(exc))\<close>.
\<close>

definition scrape_traced ::
  "fetchers \<Rightarrow> pystr \<Rightarrow> pystr \<Rightarrow> pystr \<Rightarrow> pystr \<Rightarrow> options
     \<Rightarrow> call list \<times> (bool \<times> result_record list \<times> pystr)" where
  "scrape_traced F url fetcher_type selector selector_type opts =
     (case dispatch F url fetcher_type opts of
        Unknown_fetcher \<Rightarrow> ([], (False, [], lit ''Unknown fetcher type: '' @ fetcher_type))
      | Fetched c fetched \<Rightarrow>
          (case fetched of
             Inl exc \<Rightarrow> ([c], (False, [], exn_str exc))
           | Inr pg \<Rightarrow>
               (case query pg selector selector_type of
                  (c', Inl exc) \<Rightarrow> ([c, c'], (False, [], exn_str exc))
                | (c', Inr elements) \<Rightarrow> ([c, c'], (True, scrape_loop selector elements [], [])))))"

definition scrape ::
  "fetchers \<Rightarrow> pystr \<Rightarrow> pystr \<Rightarrow> pystr \<Rightarrow> pystr \<Rightarrow> options
     \<Rightarrow> bool \<times> result_record list \<times> pystr" where
  "scrape F url fetcher_type selector selector_type opts =
     snd (scrape_traced F url fetcher_type selector selector_type opts)"

section \<open>The Scrape button\<close>

text \<open>What the handler shows: \<open>st.spinner\<close>, \<open>st.success\<close> and \<open>st.error\<close> with their text.\<close>

datatype ui = St_spinner pystr | St_success pystr | St_error pystr

definition ok_glyph :: pystr where
  "ok_glyph = [0x2705]"

definition fail_glyph :: pystr where
  "fail_glyph = [0x274C]"

text \<open>
  The block under \<open>if st.button(...)\<close>: what is shown and the session state afterwards.
  An empty url or selector shows an error and runs nothing.
\<close>

definition scrape_button ::
  "fetchers \<Rightarrow> pystr \<Rightarrow> session_state \<Rightarrow> pystr \<Rightarrow> pystr \<Rightarrow> pystr \<Rightarrow> pystr \<Rightarrow> options
     \<Rightarrow> ui list \<times> session_state" where
  "scrape_button F now st url fetcher_type selector selector_type opts =
     (if url = [] then ([St_error (lit ''Please enter a URL'')], st)
      else if selector = [] then ([St_error (lit ''Please enter a selector'')], st)
      else
        (case scrape F url fetcher_type selector selector_type opts of
           (success, data, error) \<Rightarrow>
             if success then
               ([St_spinner (lit ''Scraping with '' @ fetcher_type @ lit ''...''),
                 St_success (ok_glyph @ lit '' Found '' @ str_nat (length data) @ lit '' items!'')],
                add_to_history now (st\<lparr>results := Some data\<rparr>)
                  url fetcher_type selector (length data) ok_glyph)
             else
               ([St_spinner (lit ''Scraping with '' @ fetcher_type @ lit ''...''),
                 St_error (fail_glyph @ lit '' Error: '' @ error)],
                add_to_history now st url fetcher_type selector 0 fail_glyph)))"

text \<open>A sequence of runs, each given by the arguments of one \<open>add_to_history\<close> call.\<close>

type_synonym run = "pystr \<times> pystr \<times> pystr \<times> pystr \<times> nat \<times> pystr"

fun run_entry :: "run \<Rightarrow> history_entry" where
  "run_entry (now, url, fetcher, selector, count, status) =
     new_entry now url fetcher selector count status"

fun add_run :: "session_state \<Rightarrow> run \<Rightarrow> session_state" where
  "add_run st (now, url, fetcher, selector, count, status) =
     add_to_history now st url fetcher selector count status"

section \<open>\<open>to_json\<close>\<close>

text \<open>
  \<open>json.dumps(data, indent=2, ensure_ascii=False)\<close> on a list of records, whose keys and
  values are strings. A string is written between double quotes; with \<open>ensure_ascii\<close>
  off, only the double quote, the backslash and the control characters below U+0020 are
  escaped (the short escapes for backspace, form feed, newline, carriage return and tab,
  \<open>\u00XX\<close> with lower-case digits for the others) and every other code point is written
  as it is.
\<close>

definition hex_digit :: "nat \<Rightarrow> nat" where
  "hex_digit d = (if d < 10 then 48 + d else 87 + d)"

definition escape_char :: "nat \<Rightarrow> pystr" where
  "escape_char c =
     (if c = 0x22 then [0x5C, 0x22]
      else if c = 0x5C then [0x5C, 0x5C]
      else if c = 0x0A then [0x5C, 0x6E]
      else if c = 0x0D then [0x5C, 0x72]
      else if c = 0x09 then [0x5C, 0x74]
      else if c = 0x08 then [0x5C, 0x62]
      else if c = 0x0C then [0x5C, 0x66]
      else if c < 0x20 then [0x5C, 0x75, 0x30, 0x30, hex_digit (c div 16), hex_digit (c mod 16)]
      else [c])"

definition encode_basestring :: "pystr \<Rightarrow> pystr" where
  "encode_basestring s = 0x22 # concat (map escape_char s) @ [0x22]"

text \<open>
  With an indent, a non-empty container opens on its own line, its items are separated by a
  comma and a newline followed by the indent of the items (two spaces per level), and it
  closes on a line at the indent of the container; the key separator is a colon and a
  space. An empty dictionary is \<open>{}\<close> and an empty list is \<open>[]\<close>. \<open>join_with\<close>
  puts the separator between the items.
\<close>

fun join_with :: "pystr \<Rightarrow> pystr list \<Rightarrow> pystr" where
  "join_with sep [] = []"
| "join_with sep [x] = x"
| "join_with sep (x # y # ys) = x @ sep @ join_with sep (y # ys)"

definition newline_indent :: "nat \<Rightarrow> pystr" where
  "newline_indent level = 0x0A # replicate (2 * level) 0x20"

definition encode_member :: "pystr \<times> pystr \<Rightarrow> pystr" where
  "encode_member kv = encode_basestring (fst kv) @ [0x3A, 0x20] @ encode_basestring (snd kv)"

definition iterencode_dict :: "result_record \<Rightarrow> nat \<Rightarrow> pystr" where
  "iterencode_dict dct level =
     (if dct = [] then [0x7B, 0x7D]
      else [0x7B] @ newline_indent (level + 1)
           @ join_with (0x2C # newline_indent (level + 1)) (map encode_member dct)
           @ newline_indent level @ [0x7D])"

definition iterencode_list :: "result_record list \<Rightarrow> nat \<Rightarrow> pystr" where
  "iterencode_list lst level =
     (if lst = [] then [0x5B, 0x5D]
      else [0x5B] @ newline_indent (level + 1)
           @ join_with (0x2C # newline_indent (level + 1)) (map (\<lambda>d. iterencode_dict d (level + 1)) lst)
           @ newline_indent level @ [0x5D])"

definition json_dumps :: "result_record list \<Rightarrow> pystr" where
  "json_dumps data = iterencode_list data 0"

text \<open>
  \<open>.encode("utf-8")\<close>: the bytes of each code point. The codec is strict: a surrogate
  code point (U+D800 to U+DFFF) raises \<open>UnicodeEncodeError\<close>, which carries the code point.
  Bytes are natural numbers below 256.
\<close>

datatype encode_error = UnicodeEncodeError nat

definition utf8_char :: "nat \<Rightarrow> nat list option" where
  "utf8_char c =
     (if c < 0x80 then Some [c]
      else if c < 0x800 then Some [0xC0 + c div 64, 0x80 + c mod 64]
      else if 0xD800 \<le> c \<and> c \<le> 0xDFFF then None
      else if c < 0x10000 then
        Some [0xE0 + c div 4096, 0x80 + c div 64 mod 64, 0x80 + c mod 64]
      else if c < 0x110000 then
        Some [0xF0 + c div 262144, 0x80 + c div 4096 mod 64, 0x80 + c div 64 mod 64, 0x80 + c mod 64]
      else None)"

fun utf8_encode :: "pystr \<Rightarrow> encode_error + nat list" where
  "utf8_encode [] = Inr []"
| "utf8_encode (c # cs) =
     (case utf8_char c of
        None \<Rightarrow> Inl (UnicodeEncodeError c)
      | Some bs \<Rightarrow> (case utf8_encode cs of Inl e \<Rightarrow> Inl e | Inr rest \<Rightarrow> Inr (bs @ rest)))"

definition to_json :: "result_record list \<Rightarrow> encode_error + nat list" where
  "to_json data = utf8_encode (json_dumps data)"

section \<open>Parsing the export back\<close>

text \<open>
  Decoding UTF-8: the shortest form only, code points up to U+10FFFF; \<open>json.loads\<close>
  decodes bytes with \<open>surrogatepass\<close>, so the three-byte form of a surrogate is accepted.
  \<open>None\<close> stands for \<open>UnicodeDecodeError\<close>.
\<close>

definition is_cont :: "nat \<Rightarrow> bool" where
  "is_cont b \<longleftrightarrow> 0x80 \<le> b \<and> b < 0xC0"

fun utf8_decode :: "nat list \<Rightarrow> pystr option" where
  "utf8_decode [] = Some []"
| "utf8_decode (b0 # bs) =
     (if b0 < 0x80 then map_option (Cons b0) (utf8_decode bs)
      else if 0xC2 \<le> b0 \<and> b0 < 0xE0 then
        (case bs of
           b1 # r \<Rightarrow>
             if is_cont b1 then
               map_option (Cons ((b0 - 0xC0) * 64 + (b1 - 0x80))) (utf8_decode r)
             else None
         | _ \<Rightarrow> None)
      else if 0xE0 \<le> b0 \<and> b0 < 0xF0 then
        (case bs of
           b1 # b2 # r \<Rightarrow>
             if is_cont b1 \<and> is_cont b2
                \<and> 0x800 \<le> ((b0 - 0xE0) * 64 + (b1 - 0x80)) * 64 + (b2 - 0x80) then
               map_option (Cons (((b0 - 0xE0) * 64 + (b1 - 0x80)) * 64 + (b2 - 0x80))) (utf8_decode r)
             else None
         | _ \<Rightarrow> None)
      else if 0xF0 \<le> b0 \<and> b0 < 0xF5 then
        (case bs of
           b1 # b2 # b3 # r \<Rightarrow>
             if is_cont b1 \<and> is_cont b2 \<and> is_cont b3
                \<and> 0x10000 \<le> (((b0 - 0xF0) * 64 + (b1 - 0x80)) * 64 + (b2 - 0x80)) * 64 + (b3 - 0x80)
                \<and> (((b0 - 0xF0) * 64 + (b1 - 0x80)) * 64 + (b2 - 0x80)) * 64 + (b3 - 0x80) < 0x110000 then
               map_option (Cons ((((b0 - 0xF0) * 64 + (b1 - 0x80)) * 64 + (b2 - 0x80)) * 64 + (b3 - 0x80)))
                 (utf8_decode r)
             else None
         | _ \<Rightarrow> None)
      else None)"

text \<open>
  \<open>json.loads\<close> on the texts that denote a list of records. JSON whitespace is space,
  tab, newline and carriage return. \<open>scanstring\<close> reads a string after its opening quote
  and returns it with the rest of the input: a backslash starts an escape (a \<open>\u\<close> escape
  takes four hexadecimal digits, and a high surrogate followed by a low one is joined), a
  raw control character is refused, and every other code point stands for itself. In all
  parsers \<open>None\<close> stands for \<open>JSONDecodeError\<close>; in the parsers of members and of
  items it also stands for a value that is not a string, or not a dictionary of strings.
  An object is returned as its members in the order read; the keys of a dictionary are
  distinct, so its list of members determines it.
\<close>

definition is_ws :: "nat \<Rightarrow> bool" where
  "is_ws c \<longleftrightarrow> c = 0x20 \<or> c = 0x09 \<or> c = 0x0A \<or> c = 0x0D"

definition skip_ws :: "pystr \<Rightarrow> pystr" where
  "skip_ws s = dropWhile is_ws s"

definition hex_value :: "nat \<Rightarrow> nat option" where
  "hex_value c =
     (if 0x30 \<le> c \<and> c \<le> 0x39 then Some (c - 0x30)
      else if 0x61 \<le> c \<and> c \<le> 0x66 then Some (c - 0x57)
      else if 0x41 \<le> c \<and> c \<le> 0x46 then Some (c - 0x37)
      else None)"

fun decode_uXXXX :: "pystr \<Rightarrow> nat option" where
  "decode_uXXXX [a, b, c, d] =
     (case (hex_value a, hex_value b, hex_value c, hex_value d) of
        (Some x, Some y, Some z, Some w) \<Rightarrow> Some (((x * 16 + y) * 16 + z) * 16 + w)
      | _ \<Rightarrow> None)"
| "decode_uXXXX _ = None"

definition backslash :: "nat \<Rightarrow> nat option" where
  "backslash e =
     (if e = 0x22 then Some 0x22
      else if e = 0x5C then Some 0x5C
      else if e = 0x2F then Some 0x2F
      else if e = 0x62 then Some 0x08
      else if e = 0x66 then Some 0x0C
      else if e = 0x6E then Some 0x0A
      else if e = 0x72 then Some 0x0D
      else if e = 0x74 then Some 0x09
      else None)"

definition cons_char :: "nat \<Rightarrow> (pystr \<times> pystr) option \<Rightarrow> (pystr \<times> pystr) option" where
  "cons_char c r = (case r of None \<Rightarrow> None | Some (s, rest) \<Rightarrow> Some (c # s, rest))"

fun scanstring :: "pystr \<Rightarrow> (pystr \<times> pystr) option" where
  "scanstring [] = None"
| "scanstring (c # cs) =
     (if c = 0x22 then Some ([], cs)
      else if c = 0x5C then
        (case cs of
           [] \<Rightarrow> None
         | e # r \<Rightarrow>
             if e = 0x75 then
               (case decode_uXXXX (take 4 r) of
                  None \<Rightarrow> None
                | Some uni \<Rightarrow>
                    if 0xD800 \<le> uni \<and> uni \<le> 0xDBFF \<and> take 2 (drop 4 r) = [0x5C, 0x75] then
                      (case decode_uXXXX (take 4 (drop 6 r)) of
                         None \<Rightarrow> None
                       | Some uni2 \<Rightarrow>
                           if 0xDC00 \<le> uni2 \<and> uni2 \<le> 0xDFFF then
                             cons_char (0x10000 + ((uni - 0xD800) * 1024 + (uni2 - 0xDC00)))
                               (scanstring (drop 10 r))
                           else cons_char uni (scanstring (drop 4 r)))
                    else cons_char uni (scanstring (drop 4 r)))
             else
               (case backslash e of
                  None \<Rightarrow> None
                | Some ch \<Rightarrow> cons_char ch (scanstring r)))
      else if c < 0x20 then None
      else cons_char c (scanstring cs))"

definition parse_string :: "pystr \<Rightarrow> (pystr \<times> pystr) option" where
  "parse_string s = (case s of [] \<Rightarrow> None | c # r \<Rightarrow> if c = 0x22 then scanstring r else None)"

text \<open>
  The member loop of an object and the item loop of an array run as long as a comma
  follows; each iteration consumes input, which is what their termination rests on.
\<close>

lemma cons_char_Some: "cons_char c r = Some (s, rest) \<Longrightarrow> \<exists>s'. r = Some (s', rest)"
  by (auto simp: cons_char_def split: option.splits)

lemma scanstring_shorter: "scanstring s = Some (v, rest) \<Longrightarrow> length rest < length s"
proof (induction "length s" arbitrary: s v rule: less_induct)
  case less
  show ?case
  proof (cases s)
    case Nil
    with less.prems show ?thesis by simp
  next
    case (Cons c cs)
    have IH: "length rest < length s" if "scanstring t = Some (w, rest)" "length t < length s" for t w
      using less.hyps [OF that(2) that(1)] that(2) by simp
    consider (quote) "rest = cs"
      | (sub) t w where "scanstring t = Some (w, rest)" "length t < length s"
      using less.prems unfolding Cons
      by (auto split: if_splits list.splits option.splits dest!: cons_char_Some)
    then show ?thesis
    proof cases
      case quote
      then show ?thesis by (simp add: Cons)
    next
      case sub
      then show ?thesis by (rule IH)
    qed
  qed
qed

lemma parse_string_shorter: "parse_string s = Some (v, rest) \<Longrightarrow> length rest < length s"
  by (auto simp: parse_string_def split: list.splits if_splits dest!: scanstring_shorter)

lemma length_skip_ws: "length (skip_ws s) \<le> length s"
  by (simp add: skip_ws_def length_dropWhile_le)

function parse_pairs :: "pystr \<Rightarrow> (result_record \<times> pystr) option" where
  "parse_pairs s =
     (case parse_string s of
        None \<Rightarrow> None
      | Some (k, r1) \<Rightarrow>
          (case skip_ws r1 of
             [] \<Rightarrow> None
           | colon # r2 \<Rightarrow>
               if colon \<noteq> 0x3A then None
               else
                 (case parse_string (skip_ws r2) of
                    None \<Rightarrow> None
                  | Some (v, r3) \<Rightarrow>
                      (case skip_ws r3 of
                         [] \<Rightarrow> None
                       | c # r4 \<Rightarrow>
                           if c = 0x7D then Some ([(k, v)], r4)
                           else if c = 0x2C then
                             (case parse_pairs (skip_ws r4) of
                                None \<Rightarrow> None
                              | Some (ps, r5) \<Rightarrow> Some ((k, v) # ps, r5))
                           else None))))"
  by pat_completeness auto
termination
proof (relation "measure length")
  show "wf (measure length)" by simp
next
  fix s x2 k r1 colon r2 x2a v r3 c r4
  assume k: "parse_string s = Some x2" "(k, r1) = x2"
    and c1: "skip_ws r1 = colon # r2"
    and v: "parse_string (skip_ws r2) = Some x2a" "(v, r3) = x2a"
    and c2: "skip_ws r3 = c # r4"
  from k have "length r1 < length s" by (auto dest: parse_string_shorter)
  moreover from c1 have "length r2 < length r1"
    using length_skip_ws [of r1] by simp
  moreover from v have "length r3 < length (skip_ws r2)" by (auto dest: parse_string_shorter)
  moreover have "length (skip_ws r2) \<le> length r2" by (rule length_skip_ws)
  moreover from c2 have "length r4 < length r3"
    using length_skip_ws [of r3] by simp
  moreover have "length (skip_ws r4) \<le> length r4" by (rule length_skip_ws)
  ultimately show "(skip_ws r4, s) \<in> measure length" by simp
qed

definition parse_object :: "pystr \<Rightarrow> (result_record \<times> pystr) option" where
  "parse_object s =
     (case skip_ws s of
        [] \<Rightarrow> None
      | c # r \<Rightarrow>
          if c = 0x7D then Some ([], r)
          else if c = 0x22 then parse_pairs (c # r)
          else None)"

declare parse_pairs.simps [simp del]

lemma parse_pairs_shorter: "parse_pairs s = Some (ps, rest) \<Longrightarrow> length rest < length s"
proof (induction s arbitrary: ps rule: parse_pairs.induct)
  case (1 s)
  from "1.prems" obtain k r1 where k: "parse_string s = Some (k, r1)"
    by (subst (asm) parse_pairs.simps) (auto split: option.splits)
  from "1.prems" k obtain r2 where c1: "skip_ws r1 = 0x3A # r2"
    by (subst (asm) parse_pairs.simps) (auto split: list.splits if_splits)
  from "1.prems" k c1 obtain v r3 where v: "parse_string (skip_ws r2) = Some (v, r3)"
    by (subst (asm) parse_pairs.simps) (auto split: option.splits)
  from "1.prems" k c1 v obtain c r4 where c2: "skip_ws r3 = c # r4"
    by (subst (asm) parse_pairs.simps) (auto split: list.splits)
  have l4: "length r4 < length s"
  proof -
    from k have "length r1 < length s" by (rule parse_string_shorter)
    moreover from c1 have "length r2 < length r1"
      using length_skip_ws [of r1] by simp
    moreover from v have "length r3 < length (skip_ws r2)" by (rule parse_string_shorter)
    moreover have "length (skip_ws r2) \<le> length r2" by (rule length_skip_ws)
    moreover from c2 have "length r4 < length r3"
      using length_skip_ws [of r3] by simp
    ultimately show ?thesis by simp
  qed
  show ?case
  proof (cases "c = 0x7D")
    case True
    with "1.prems" k c1 v c2 have "rest = r4"
      by (subst (asm) parse_pairs.simps) simp
    with l4 show ?thesis by simp
  next
    case False
    with "1.prems" k c1 v c2 have comma: "c = 0x2C"
      by (subst (asm) parse_pairs.simps) (simp split: if_splits)
    with "1.prems" k c1 v c2 False obtain ps' where rec: "parse_pairs (skip_ws r4) = Some (ps', rest)"
      by (subst (asm) parse_pairs.simps) (auto split: option.splits)
    have "length rest < length (skip_ws r4)"
      using "1.IH" [OF k refl c1 _ v refl c2 False comma rec] by simp
    with l4 length_skip_ws [of r4] show ?thesis by simp
  qed
qed

lemma parse_object_shorter: "parse_object s = Some (d, rest) \<Longrightarrow> length rest < length s"
proof -
  assume a: "parse_object s = Some (d, rest)"
  then obtain c r where c: "skip_ws s = c # r"
    by (auto simp: parse_object_def split: list.splits)
  with a have "rest = r \<or> parse_pairs (c # r) = Some (d, rest)"
    by (auto simp: parse_object_def split: if_splits)
  then have "length rest < length (skip_ws s)"
    using c by (auto dest: parse_pairs_shorter)
  with length_skip_ws [of s] show ?thesis by simp
qed

function parse_objects :: "pystr \<Rightarrow> (result_record list \<times> pystr) option" where
  "parse_objects s =
     (case s of
        [] \<Rightarrow> None
      | brace # r \<Rightarrow>
          if brace \<noteq> 0x7B then None
          else
            (case parse_object r of
               None \<Rightarrow> None
             | Some (d, r1) \<Rightarrow>
                 (case skip_ws r1 of
                    [] \<Rightarrow> None
                  | c # r2 \<Rightarrow>
                      if c = 0x5D then Some ([d], r2)
                      else if c = 0x2C then
                        (case parse_objects (skip_ws r2) of
                           None \<Rightarrow> None
                         | Some (ds, r3) \<Rightarrow> Some (d # ds, r3))
                      else None)))"
  by pat_completeness auto
termination
proof (relation "measure length")
  show "wf (measure length)" by simp
next
  fix s brace r x2 d r1 c r2
  assume s: "s = brace # r"
    and d: "parse_object r = Some x2" "(d, r1) = x2"
    and c: "skip_ws r1 = c # r2"
  from d have "length r1 < length r" by (auto dest: parse_object_shorter)
  moreover from c have "length r2 < length r1"
    using length_skip_ws [of r1] by simp
  moreover have "length (skip_ws r2) \<le> length r2" by (rule length_skip_ws)
  ultimately show "(skip_ws r2, s) \<in> measure length" using s by simp
qed

declare parse_objects.simps [simp del]

definition parse_array :: "pystr \<Rightarrow> (result_record list \<times> pystr) option" where
  "parse_array s =
     (case skip_ws s of
        [] \<Rightarrow> None
      | c # r \<Rightarrow> if c = 0x5D then Some ([], r) else parse_objects (c # r))"

definition json_loads :: "pystr \<Rightarrow> result_record list option" where
  "json_loads s =
     (case skip_ws s of
        [] \<Rightarrow> None
      | c # r \<Rightarrow>
          if c \<noteq> 0x5B then None
          else
            (case parse_array r of
               None \<Rightarrow> None
             | Some (data, rest) \<Rightarrow> if skip_ws rest = [] then Some data else None))"

definition json_loads_bytes :: "nat list \<Rightarrow> result_record list option" where
  "json_loads_bytes bs = (case utf8_decode bs of None \<Rightarrow> None | Some s \<Rightarrow> json_loads s)"

text \<open>
  The code points that UTF-8 can encode, and the record lists all of whose keys and values
  consist of such code points.
\<close>

definition encodable :: "nat \<Rightarrow> bool" where
  "encodable c \<longleftrightarrow> c < 0xD800 \<or> (0xDFFF < c \<and> c < 0x110000)"

definition encodable_data :: "result_record list \<Rightarrow> bool" where
  "encodable_data data =
     list_all (list_all (\<lambda>kv. list_all encodable (fst kv) \<and> list_all encodable (snd kv))) data"

section \<open>Example inputs\<close>

text \<open>
  Concrete inputs at which the theorems below are evaluated: three matched elements, a
  page whose CSS query returns them and whose XPath query raises, a library whose
  stealthy fetch raises, a session state that holds one earlier result and one history
  entry, twenty-one runs numbered by their count, and a record whose text has a quote, a
  newline, a control character and code points of two, three and four bytes.
\<close>

definition example_elements :: "element list" where
  "example_elements =
     [\<lparr>el_text = Some (Some (lit '' one '')), el_html = Some (lit ''<p> one </p>''), el_str = lit ''<p> one </p>''\<rparr>,
      \<lparr>el_text = Some (Some []), el_html = Some (lit ''<p></p>''), el_str = lit ''<p></p>''\<rparr>,
      \<lparr>el_text = Some (Some (lit ''two'')), el_html = Some (lit ''<p>two</p>''), el_str = lit ''<p>two</p>''\<rparr>]"

definition example_page :: page where
  "example_page =
     \<lparr>page_css = (\<lambda>selector. Inr example_elements),
      page_xpath = (\<lambda>selector. Inl (Exn (lit ''Invalid expression'')))\<rparr>"

definition example_fetchers :: fetchers where
  "example_fetchers =
     \<lparr>Fetcher_get = (\<lambda>url stealthy_headers timeout. Inr example_page),
      StealthyFetcher_fetch = (\<lambda>url headless solve_cloudflare network_idle. Inl (Exn (lit ''Timeout 30000ms exceeded''))),
      DynamicFetcher_fetch = (\<lambda>url headless network_idle. Inr example_page)\<rparr>"

definition example_state :: session_state where
  "example_state =
     \<lparr>results = Some [[(lit ''text'', lit ''old'')]], last_url = [],
      history = [new_entry (lit ''09:00:00'') (lit ''https://a.example'') (lit ''Fetcher'') (lit ''p::text'') 1 ok_glyph]\<rparr>"

definition example_runs :: "run list" where
  "example_runs =
     map (\<lambda>i. (lit ''12:00:00'', lit ''https://a.example'', lit ''Fetcher'', lit ''p::text'', i, ok_glyph))
       [0..<21]"

definition example_records :: "result_record list" where
  "example_records = [[(lit ''text'', [0x22, 0x0A, 0x1F, 0xE9, 0x4E2D, 0x1F600]), (lit ''html'', [])], []]"

section \<open>Strings\<close>

lemma length_lit [simp]: "length (lit s) = length s"
  by (simp add: lit_def)

lemma py_in_iff_sublist: "py_in sub s \<longleftrightarrow> sublist sub s"
  by (induction s) (auto simp: sublist_Cons_right)

lemma strip_Nil [simp]: "strip [] = []"
  by (simp add: strip_def)

lemma strip_last: "strip s \<noteq> [] \<Longrightarrow> \<not> isspace (last (strip s))"
  unfolding strip_def
  by (metis hd_dropWhile last_rev rev_is_Nil_conv)

lemma strip_not_all_space: "strip s \<noteq> [] \<Longrightarrow> \<not> list_all isspace (strip s)"
  using strip_last[of s] by (metis last_in_set list_all_iff)

lemma strip_hd: "strip s \<noteq> [] \<Longrightarrow> \<not> isspace (hd (strip s))"
proof -
  assume ne: "strip s \<noteq> []"
  define d where "d = dropWhile isspace s"
  have "rev d = takeWhile isspace (rev d) @ dropWhile isspace (rev d)" by simp
  then have "d = strip s @ rev (takeWhile isspace (rev d))"
    unfolding strip_def d_def by (metis rev_append rev_rev_ident)
  with ne have "hd (strip s) = hd d" and "d \<noteq> []" by (metis hd_append2, metis append_is_Nil_conv)
  then show ?thesis unfolding d_def by (metis hd_dropWhile)
qed

lemma strip_idem: "strip (strip s) = strip s"
proof (cases "strip s = []")
  case True then show ?thesis by simp
next
  case False
  then have h: "\<not> isspace (hd (strip s))" and l: "\<not> isspace (last (strip s))"
    by (rule strip_hd, rule strip_last)
  from False h have 1: "dropWhile isspace (strip s) = strip s"
    by (cases "strip s") auto
  from False l have 2: "dropWhile isspace (rev (strip s)) = rev (strip s)"
    by (cases "rev (strip s)") (auto simp: last_rev[symmetric] simp del: last_rev)
  show ?thesis
    by (subst (1) strip_def) (simp add: 1 2)
qed

section \<open>The loop of \<open>scrape\<close>\<close>

lemma scrape_step_appends: "scrape_step sel data el = data @ scrape_step sel [] el"
  by (simp add: scrape_step_def Let_def split: option.splits)

lemma scrape_loop_concat: "scrape_loop sel els data = data @ concat (map (scrape_step sel []) els)"
proof (induction els arbitrary: data)
  case Nil
  show ?case by simp
next
  case (Cons el els)
  have "scrape_loop sel (el # els) data = scrape_step sel data el @ concat (map (scrape_step sel []) els)"
    by (simp add: Cons.IH)
  also have "\<dots> = data @ scrape_step sel [] el @ concat (map (scrape_step sel []) els)"
    by (subst scrape_step_appends) simp
  finally show ?case by simp
qed

text \<open>
  Claim C1. When the selector contains \<open>::text\<close>, the loop emits, in order, one record
  for each element whose text is non-empty after stripping, where the text is \<open>el.text\<close>
  when the element has that attribute and \<open>str(el)\<close> otherwise. Each record has the single
  key \<open>text\<close>, bound to the stripped text; an element whose stripped text is empty gives no
  record, so no emitted value is empty or made of whitespace only.
\<close>

theorem text_selector_records:
  assumes "py_in (lit ''::text'') selector"
  shows "scrape_loop selector elements [] =
           map (\<lambda>t. [(lit ''text'', t)])
             (filter (\<lambda>t. t \<noteq> [])
               (map (\<lambda>el. case (case el_text el of None \<Rightarrow> Some (el_str el) | Some v \<Rightarrow> v) of
                            None \<Rightarrow> [] | Some t \<Rightarrow> strip t) elements))
         \<and> (\<forall>r \<in> set (scrape_loop selector elements []).
              \<exists>t. r = [(lit ''text'', t)] \<and> t \<noteq> [] \<and> \<not> list_all isspace t \<and> strip t = t)"
proof -
  let ?txt = "\<lambda>el. case (case el_text el of None \<Rightarrow> Some (el_str el) | Some v \<Rightarrow> v) of
                            None \<Rightarrow> [] | Some t \<Rightarrow> strip t"
  have step: "scrape_step selector [] el = (if ?txt el \<noteq> [] then [[(lit ''text'', ?txt el)]] else [])" for el
    using assms by (auto simp add: scrape_step_def split: option.splits)
  have eq: "scrape_loop selector elements [] = map (\<lambda>t. [(lit ''text'', t)]) (filter (\<lambda>t. t \<noteq> []) (map ?txt elements))"
    unfolding scrape_loop_concat by (induction elements) (simp_all add: step)
  have "\<exists>t. r = [(lit ''text'', t)] \<and> t \<noteq> [] \<and> \<not> list_all isspace t \<and> strip t = t"
    if "r \<in> set (scrape_loop selector elements [])" for r
  proof -
    from that obtain el :: element where r: "r = [(lit ''text'', ?txt el)]" and ne: "?txt el \<noteq> []"
      unfolding eq by auto
    from ne obtain s where s: "?txt el = strip s"
      by (auto split: option.splits)
    with ne have "\<not> list_all isspace (?txt el)" "strip (?txt el) = ?txt el"
      by (simp_all add: strip_not_all_space strip_idem)
    with r ne show ?thesis by blast
  qed
  with eq show ?thesis by blast
qed

text \<open>The theorem at a selector and four elements: two of them give a record.\<close>

theorem text_selector_records_witness:
  "py_in (lit ''::text'') (lit ''p::text'')
   \<and> scrape_loop (lit ''p::text'')
         [\<lparr>el_text = Some (Some (lit ''  hi '')), el_html = None, el_str = lit ''a''\<rparr>,
          \<lparr>el_text = Some (Some (lit ''   '')), el_html = None, el_str = lit ''b''\<rparr>,
          \<lparr>el_text = None, el_html = None, el_str = lit '' raw''\<rparr>,
          \<lparr>el_text = Some None, el_html = None, el_str = lit ''c''\<rparr>] []
       = [[(lit ''text'', lit ''hi'')], [(lit ''text'', lit ''raw'')]]"
proof -
  have h: "py_in (lit ''::text'') (lit ''p::text'')"
    by (simp add: lit_def)
  show ?thesis
    using h text_selector_records [OF h, of "[\<lparr>el_text = Some (Some (lit ''  hi '')), el_html = None, el_str = lit ''a''\<rparr>,
          \<lparr>el_text = Some (Some (lit ''   '')), el_html = None, el_str = lit ''b''\<rparr>,
          \<lparr>el_text = None, el_html = None, el_str = lit '' raw''\<rparr>,
          \<lparr>el_text = Some None, el_html = None, el_str = lit ''c''\<rparr>]"]
    by (simp add: strip_def isspace_def lit_def)
qed

text \<open>
  Claim C2. When the selector contains \<open>::attr(\<close> and does not contain \<open>::text\<close>, the
  loop emits exactly one record per element, in order, each with the single key \<open>value\<close>
  bound to \<open>str(el)\<close>.
\<close>

theorem attr_selector_records:
  assumes "py_in (lit ''::attr('') selector" and "\<not> py_in (lit ''::text'') selector"
  shows "scrape_loop selector elements [] = map (\<lambda>el. [(lit ''value'', el_str el)]) elements
         \<and> length (scrape_loop selector elements []) = length elements"
proof -
  have step: "scrape_step selector [] el = [[(lit ''value'', el_str el)]]" for el
    using assms by (simp add: scrape_step_def)
  have "scrape_loop selector elements [] = map (\<lambda>el. [(lit ''value'', el_str el)]) elements"
    unfolding scrape_loop_concat by (induction elements) (simp_all add: step)
  then show ?thesis by simp
qed

text \<open>The theorem at the quick selector for links and two elements.\<close>

theorem attr_selector_records_witness:
  "py_in (lit ''::attr('') (lit ''a::attr(href)'') \<and> \<not> py_in (lit ''::text'') (lit ''a::attr(href)'')
   \<and> scrape_loop (lit ''a::attr(href)'')
         [\<lparr>el_text = None, el_html = None, el_str = lit ''/x''\<rparr>,
          \<lparr>el_text = Some (Some (lit ''t'')), el_html = None, el_str = []\<rparr>] []
       = [[(lit ''value'', lit ''/x'')], [(lit ''value'', [])]]"
proof -
  have h1: "py_in (lit ''::attr('') (lit ''a::attr(href)'')"
    by (simp add: lit_def)
  have h2: "\<not> py_in (lit ''::text'') (lit ''a::attr(href)'')"
    by (simp add: lit_def)
  show ?thesis
    using h1 h2 attr_selector_records [OF h1 h2, of "[\<lparr>el_text = None, el_html = None, el_str = lit ''/x''\<rparr>,
          \<lparr>el_text = Some (Some (lit ''t'')), el_html = None, el_str = []\<rparr>]"]
    by simp
qed

text \<open>
  Claim C3. When the selector contains neither \<open>::text\<close> nor \<open>::attr(\<close>, the loop emits
  exactly one record per element, in order, each with the two keys \<open>text\<close> and \<open>html\<close>:
  \<open>text\<close> is the stripped text of the element, or the empty string when the element has no
  text, and \<open>html\<close> is the first 200 characters of \<open>el.html\<close> (of \<open>str(el)\<close> when
  the element has no such attribute), so it is at most 200 characters long.
\<close>

theorem plain_selector_records:
  assumes "\<not> py_in (lit ''::text'') selector" and "\<not> py_in (lit ''::attr('') selector"
  shows "scrape_loop selector elements [] =
           map (\<lambda>el. [(lit ''text'', (case el_text el of Some (Some t) \<Rightarrow> strip t | _ \<Rightarrow> [])),
                       (lit ''html'', take 200 (case el_html el of Some h \<Rightarrow> h | None \<Rightarrow> el_str el))])
             elements
         \<and> length (scrape_loop selector elements []) = length elements
         \<and> (\<forall>r \<in> set (scrape_loop selector elements []).
              \<exists>t h. r = [(lit ''text'', t), (lit ''html'', h)] \<and> length h \<le> 200)"
proof -
  let ?rec = "\<lambda>el. [(lit ''text'', (case el_text el of Some (Some t) \<Rightarrow> strip t | _ \<Rightarrow> [])),
                       (lit ''html'', take 200 (case el_html el of Some h \<Rightarrow> h | None \<Rightarrow> el_str el))]"
  have step: "scrape_step selector [] el = [?rec el]" for el
    using assms by (simp add: scrape_step_def split: option.splits)
  have eq: "scrape_loop selector elements [] = map ?rec elements"
    unfolding scrape_loop_concat by (induction elements) (simp_all add: step)
  have "\<exists>t h. r = [(lit ''text'', t), (lit ''html'', h)] \<and> length h \<le> 200"
    if "r \<in> set (scrape_loop selector elements [])" for r
  proof -
    from that obtain el :: element where "r = ?rec el" unfolding eq by auto
    then show ?thesis by simp
  qed
  with eq show ?thesis by simp
qed

text \<open>The theorem at a plain selector: an html of 250 characters is cut to 200.\<close>

theorem plain_selector_records_witness:
  "\<not> py_in (lit ''::text'') (lit ''div.q'') \<and> \<not> py_in (lit ''::attr('') (lit ''div.q'')
   \<and> scrape_loop (lit ''div.q'')
         [\<lparr>el_text = Some (Some (lit '' hi '')), el_html = Some (replicate 250 60), el_str = lit ''s''\<rparr>,
          \<lparr>el_text = None, el_html = None, el_str = lit ''raw''\<rparr>] []
       = [[(lit ''text'', lit ''hi''), (lit ''html'', replicate 200 60)],
          [(lit ''text'', []), (lit ''html'', lit ''raw'')]]"
proof -
  have h1: "\<not> py_in (lit ''::text'') (lit ''div.q'')"
    by (simp add: lit_def)
  have h2: "\<not> py_in (lit ''::attr('') (lit ''div.q'')"
    by (simp add: lit_def)
  show ?thesis
    using h1 h2 plain_selector_records [OF h1 h2, of "[\<lparr>el_text = Some (Some (lit '' hi '')), el_html = Some (replicate 250 60), el_str = lit ''s''\<rparr>,
          \<lparr>el_text = None, el_html = None, el_str = lit ''raw''\<rparr>]"]
    by (simp add: strip_def isspace_def lit_def)
qed

section \<open>\<open>scrape\<close> and its collaborators\<close>

lemma scrape_fetch_raises:
  "dispatch F url fetcher_type opts = Fetched c (Inl exc) \<Longrightarrow>
   scrape F url fetcher_type selector selector_type opts = (False, [], exn_str exc)"
  by (simp add: scrape_def scrape_traced_def)

lemma scrape_query_raises:
  "dispatch F url fetcher_type opts = Fetched c (Inr pg) \<Longrightarrow>
   snd (query pg selector selector_type) = Inl exc \<Longrightarrow>
   scrape F url fetcher_type selector selector_type opts = (False, [], exn_str exc)"
  by (cases "query pg selector selector_type") (simp add: scrape_def scrape_traced_def)

lemma scrape_returns_loop:
  "dispatch F url fetcher_type opts = Fetched c (Inr pg) \<Longrightarrow>
   snd (query pg selector selector_type) = Inr elements \<Longrightarrow>
   scrape F url fetcher_type selector selector_type opts = (True, scrape_loop selector elements [], [])"
  by (cases "query pg selector selector_type") (simp add: scrape_def scrape_traced_def)

text \<open>
  Claim C9. For a \<open>fetcher_type\<close> other than \<open>Fetcher\<close>, \<open>StealthyFetcher\<close> and
  \<open>DynamicFetcher\<close>, \<open>scrape\<close> returns \<open>False\<close>, the empty list and the message
  \<open>Unknown fetcher type: \<close> followed by the given name, and it calls neither a fetch entry
  point nor a selector query: the list of calls it made is empty.
\<close>

theorem unknown_fetcher_type_rejected:
  assumes "fetcher_type \<noteq> lit ''Fetcher''"
    and "fetcher_type \<noteq> lit ''StealthyFetcher''"
    and "fetcher_type \<noteq> lit ''DynamicFetcher''"
  shows "scrape_traced F url fetcher_type selector selector_type opts
           = ([], (False, [], lit ''Unknown fetcher type: '' @ fetcher_type))
         \<and> scrape F url fetcher_type selector selector_type opts
           = (False, [], lit ''Unknown fetcher type: '' @ fetcher_type)"
  using assms by (simp add: scrape_def scrape_traced_def dispatch_def)

text \<open>
  The theorem at the fetcher name \<open>Curl\<close>.
\<close>

theorem unknown_fetcher_type_rejected_witness:
  "lit ''Curl'' \<noteq> lit ''Fetcher'' \<and> lit ''Curl'' \<noteq> lit ''StealthyFetcher''
   \<and> lit ''Curl'' \<noteq> lit ''DynamicFetcher''
   \<and> scrape_traced example_fetchers (lit ''https://a.example'') (lit ''Curl'') (lit ''p::text'')
        (lit ''CSS'') Map.empty
      = ([], (False, [], lit ''Unknown fetcher type: Curl''))"
proof -
  have h1: "lit ''Curl'' \<noteq> lit ''Fetcher''" by (simp add: lit_def)
  have h2: "lit ''Curl'' \<noteq> lit ''StealthyFetcher''" by (simp add: lit_def)
  have h3: "lit ''Curl'' \<noteq> lit ''DynamicFetcher''" by (simp add: lit_def)
  show ?thesis
    using h1 h2 h3
      unknown_fetcher_type_rejected [OF h1 h2 h3, of example_fetchers "lit ''https://a.example''"
        "lit ''p::text''" "lit ''CSS''" Map.empty]
    by (simp add: lit_def)
qed

section \<open>Job history\<close>

lemma length_shorten: "length (shorten n s) \<le> n + 3"
  by (simp add: shorten_def)

lemma take_append_take: "take n (xs @ take n ys) = take n (xs @ ys)"
  by (simp add: min_def)

lemma history_add_to_history:
  "history (add_to_history now st url fetcher selector count status) =
     take 20 (new_entry now url fetcher selector count status # history st)"
  by (simp add: add_to_history_def)

lemma results_add_to_history:
  "results (add_to_history now st url fetcher selector count status) = results st"
  by (simp add: add_to_history_def)

lemma history_add_runs:
  "length (history st) \<le> 20 \<Longrightarrow>
   history (foldl add_run st runs) = take 20 (rev (map run_entry runs) @ history st)"
proof (induction runs arbitrary: st)
  case Nil
  then show ?case by simp
next
  case (Cons r runs)
  obtain now url fetcher selector count status where r: "r = (now, url, fetcher, selector, count, status)"
    by (cases r)
  have len: "length (history (add_run st r)) \<le> 20"
    by (simp add: r history_add_to_history)
  have "history (foldl add_run st (r # runs)) = history (foldl add_run (add_run st r) runs)"
    by simp
  also have "\<dots> = take 20 (rev (map run_entry runs) @ history (add_run st r))"
    using len by (rule Cons.IH)
  also have "\<dots> = take 20 (rev (map run_entry runs) @ take 20 (run_entry r # history st))"
    by (simp only: r add_run.simps run_entry.simps history_add_to_history)
  also have "\<dots> = take 20 (rev (map run_entry runs) @ run_entry r # history st)"
    by (rule take_append_take)
  finally show ?case by simp
qed

lemma run_entry_lengths:
  "length (entry_url (run_entry r)) \<le> 53 \<and> length (entry_selector (run_entry r)) \<le> 33"
proof -
  obtain now url fetcher selector count status
    where r: "r = (now, url, fetcher, selector, count, status)"
    by (cases r)
  show ?thesis
    using length_shorten [of 50 url] length_shorten [of 30 selector]
    by (simp add: r new_entry_def)
qed

text \<open>
  Claim C10. The entry that \<open>add_to_history\<close> puts at the front stores the url shortened
  to its first 50 characters followed by three dots when it is longer than 50 characters,
  and unchanged otherwise, and the selector likewise with 30 characters. So every entry of
  a history built by \<open>add_to_history\<close> from the empty one has a url field of at most 53
  characters and a selector field of at most 33.
\<close>

theorem add_to_history_truncates_fields:
  "(\<exists>e rest. history (add_to_history now st url fetcher selector count status) = e # rest
     \<and> entry_url e = (if length url > 50 then take 50 url @ lit ''...'' else url)
     \<and> entry_selector e = (if length selector > 30 then take 30 selector @ lit ''...'' else selector)
     \<and> length (entry_url e) \<le> 53
     \<and> length (entry_selector e) \<le> 33)
   \<and> (\<forall>e \<in> set (history (foldl add_run initial_state runs)).
         length (entry_url e) \<le> 53 \<and> length (entry_selector e) \<le> 33)"
proof -
  have one: "\<exists>e rest. history (add_to_history now st url fetcher selector count status) = e # rest
     \<and> entry_url e = (if length url > 50 then take 50 url @ lit ''...'' else url)
     \<and> entry_selector e = (if length selector > 30 then take 30 selector @ lit ''...'' else selector)
     \<and> length (entry_url e) \<le> 53
     \<and> length (entry_selector e) \<le> 33"
    by (simp add: add_to_history_def new_entry_def shorten_def)
  have "length (entry_url e) \<le> 53 \<and> length (entry_selector e) \<le> 33"
    if "e \<in> set (history (foldl add_run initial_state runs))" for e
  proof -
    have "history (foldl add_run initial_state runs) = take 20 (rev (map run_entry runs))"
      by (simp add: history_add_runs initial_state_def)
    with that have "e \<in> set (map run_entry runs)"
      by (auto dest: in_set_takeD)
    then obtain r where "e = run_entry r" by auto
    then show ?thesis by (simp only: run_entry_lengths)
  qed
  with one show ?thesis by blast
qed

text \<open>
  The theorem at a url of 60 characters and a selector of 45, and at the 21 example runs.
\<close>

theorem add_to_history_truncates_fields_witness:
  "entry_url (hd (history (add_to_history (lit ''09:30:00'') example_state (replicate 60 97)
      (lit ''Fetcher'') (lit ''div.quote span.text::text, small.author::text'') 7 ok_glyph)))
     = replicate 50 97 @ lit ''...''
   \<and> entry_selector (hd (history (add_to_history (lit ''09:30:00'') example_state (replicate 60 97)
      (lit ''Fetcher'') (lit ''div.quote span.text::text, small.author::text'') 7 ok_glyph)))
     = lit ''div.quote span.text::text, sma...''
   \<and> list_all (\<lambda>e. length (entry_url e) \<le> 53 \<and> length (entry_selector e) \<le> 33)
        (history (foldl add_run initial_state example_runs))"
  using add_to_history_truncates_fields [of "lit ''09:30:00''" example_state "replicate 60 97"
      "lit ''Fetcher''" "lit ''div.quote span.text::text, small.author::text''" 7 ok_glyph example_runs]
  by (auto simp add: lit_def list_all_iff)

text \<open>
  Claim C4. \<open>add_to_history\<close> puts the new entry at the front and keeps the first 20
  entries of the result. So the history never holds more than 20 entries; a history of
  fewer than 20 entries only grows by the new one, and a history of 20 loses its last
  (oldest) entry. Started from the empty history, any sequence of runs leaves the entries
  of the most recent 20 runs, most recent first; after 21 runs the entry of the first run
  is gone and the other 20 remain.
\<close>

theorem history_capped_at_20:
  "history (add_to_history now st url fetcher selector count status)
     = take 20 (new_entry now url fetcher selector count status # history st)
   \<and> length (history (add_to_history now st url fetcher selector count status)) \<le> 20
   \<and> (length (history st) < 20 \<longrightarrow>
        history (add_to_history now st url fetcher selector count status)
          = new_entry now url fetcher selector count status # history st)
   \<and> (length (history st) = 20 \<longrightarrow>
        history (add_to_history now st url fetcher selector count status)
          = new_entry now url fetcher selector count status # butlast (history st))
   \<and> history (foldl add_run initial_state runs) = take 20 (rev (map run_entry runs))
   \<and> (length runs = 21 \<longrightarrow>
        history (foldl add_run initial_state runs) = rev (map run_entry (tl runs)))"
proof -
  let ?e = "new_entry now url fetcher selector count status"
  have cut: "history (add_to_history now st url fetcher selector count status) = take 20 (?e # history st)"
    by (rule history_add_to_history)
  have bound: "length (take 20 (?e # history st)) \<le> 20"
    by simp
  have short: "take 20 (?e # history st) = ?e # history st" if "length (history st) < 20"
    using that by simp
  have full: "take 20 (?e # history st) = ?e # butlast (history st)" if "length (history st) = 20"
    using that by (simp add: take_Cons' butlast_conv_take)
  have many: "history (foldl add_run initial_state runs) = take 20 (rev (map run_entry runs))"
    by (simp add: history_add_runs initial_state_def)
  have evict: "take 20 (rev (map run_entry runs)) = rev (map run_entry (tl runs))" if "length runs = 21"
  proof -
    from that obtain r rs where runs: "runs = r # rs" and rs: "length rs = 20"
      by (cases runs) auto
    then show ?thesis by simp
  qed
  show ?thesis
    unfolding cut many using bound short full evict by blast
qed

text \<open>
  The theorem at the 21 example runs (the run with count 0 is evicted) and at one run
  added to the example state.
\<close>

theorem history_capped_at_20_witness:
  "length example_runs = 21
   \<and> length (history example_state) < 20
   \<and> map entry_count (history (foldl add_run initial_state example_runs))
       = [20, 19, 18, 17, 16, 15, 14, 13, 12, 11, 10, 9, 8, 7, 6, 5, 4, 3, 2, 1]
   \<and> map entry_count
        (history (add_to_history (lit ''09:30:00'') example_state (lit ''https://b.example'')
           (lit ''Fetcher'') (lit ''td::text'') 7 ok_glyph)) = [7, 1]"
proof -
  have n: "length example_runs = 21"
    by (simp add: example_runs_def)
  have m: "length (history example_state) < 20"
    by (simp add: example_state_def)
  have ev: "map entry_count (rev (map run_entry (tl example_runs)))
      = [20, 19, 18, 17, 16, 15, 14, 13, 12, 11, 10, 9, 8, 7, 6, 5, 4, 3, 2, 1]"
    by (simp add: example_runs_def upt_rec new_entry_def)
  have one: "map entry_count (new_entry (lit ''09:30:00'') (lit ''https://b.example'')
           (lit ''Fetcher'') (lit ''td::text'') 7 ok_glyph # history example_state) = [7, 1]"
    by (simp add: example_state_def new_entry_def)
  note T = history_capped_at_20 [of "lit ''09:30:00''" example_state "lit ''https://b.example''"
        "lit ''Fetcher''" "lit ''td::text''" 7 ok_glyph example_runs]
  from T n have a: "history (foldl add_run initial_state example_runs)
      = rev (map run_entry (tl example_runs))"
    by blast
  from T m have b: "history (add_to_history (lit ''09:30:00'') example_state (lit ''https://b.example'')
           (lit ''Fetcher'') (lit ''td::text'') 7 ok_glyph)
      = new_entry (lit ''09:30:00'') (lit ''https://b.example'')
           (lit ''Fetcher'') (lit ''td::text'') 7 ok_glyph # history example_state"
    by blast
  show ?thesis
    unfolding a b using n m ev one by blast
qed

section \<open>What a click on Scrape does to the session\<close>

lemma scrape_button_failure:
  "url \<noteq> [] \<Longrightarrow> selector \<noteq> [] \<Longrightarrow>
   scrape F url fetcher_type selector selector_type opts = (False, data, error) \<Longrightarrow>
   scrape_button F now st url fetcher_type selector selector_type opts =
     ([St_spinner (lit ''Scraping with '' @ fetcher_type @ lit ''...''),
       St_error (fail_glyph @ lit '' Error: '' @ error)],
      add_to_history now st url fetcher_type selector 0 fail_glyph)"
  by (simp add: scrape_button_def)

lemma scrape_button_success:
  "url \<noteq> [] \<Longrightarrow> selector \<noteq> [] \<Longrightarrow>
   scrape F url fetcher_type selector selector_type opts = (True, data, error) \<Longrightarrow>
   scrape_button F now st url fetcher_type selector selector_type opts =
     ([St_spinner (lit ''Scraping with '' @ fetcher_type @ lit ''...''),
       St_success (ok_glyph @ lit '' Found '' @ str_nat (length data) @ lit '' items!'')],
      add_to_history now (st\<lparr>results := Some data\<rparr>) url fetcher_type selector (length data) ok_glyph)"
  by (simp add: scrape_button_def)

text \<open>
  Claim C5, as stated, says that a failed scrape leaves the result state empty. The
  failure branch of the handler does not assign \<open>st.session_state.results\<close>, so the
  records of an earlier successful run stay: here the stealthy fetch raises and the result
  state still holds the earlier record.
\<close>

theorem failed_scrape_results_not_empty:
  "dispatch example_fetchers (lit ''https://a.example'') (lit ''StealthyFetcher'') Map.empty
       = Fetched (Call_StealthyFetcher_fetch (lit ''https://a.example'') (PyBool True) (PyBool False) (PyBool True))
           (Inl (Exn (lit ''Timeout 30000ms exceeded'')))
   \<and> results (snd (scrape_button example_fetchers (lit ''09:30:00'') example_state
        (lit ''https://a.example'') (lit ''StealthyFetcher'') (lit ''p::text'') (lit ''CSS'') Map.empty))
       = Some [[(lit ''text'', lit ''old'')]]
   \<and> results (snd (scrape_button example_fetchers (lit ''09:30:00'') example_state
        (lit ''https://a.example'') (lit ''StealthyFetcher'') (lit ''p::text'') (lit ''CSS'') Map.empty))
       \<noteq> None
   \<and> results (snd (scrape_button example_fetchers (lit ''09:30:00'') example_state
        (lit ''https://a.example'') (lit ''StealthyFetcher'') (lit ''p::text'') (lit ''CSS'') Map.empty))
       \<noteq> Some []"
proof -
  have d: "dispatch example_fetchers (lit ''https://a.example'') (lit ''StealthyFetcher'') Map.empty
       = Fetched (Call_StealthyFetcher_fetch (lit ''https://a.example'') (PyBool True) (PyBool False) (PyBool True))
           (Inl (Exn (lit ''Timeout 30000ms exceeded'')))"
    by (simp add: dispatch_def example_fetchers_def options_get_def lit_def)
  have sc: "scrape example_fetchers (lit ''https://a.example'') (lit ''StealthyFetcher'') (lit ''p::text'')
        (lit ''CSS'') Map.empty = (False, [], lit ''Timeout 30000ms exceeded'')"
    using d by (simp add: scrape_def scrape_traced_def)
  have "results (snd (scrape_button example_fetchers (lit ''09:30:00'') example_state
        (lit ''https://a.example'') (lit ''StealthyFetcher'') (lit ''p::text'') (lit ''CSS'') Map.empty))
       = Some [[(lit ''text'', lit ''old'')]]"
    using scrape_button_failure [OF _ _ sc, of "lit ''09:30:00''" example_state]
    by (simp add: add_to_history_def example_state_def lit_def)
  with d show ?thesis by simp
qed

text \<open>
  Claim C5, amended. When the fetch raises, or the fetch returns a page and the selector
  query raises, \<open>scrape\<close> returns \<open>False\<close>, the empty list and \<open>str(exc)\<close>. The
  handler then leaves the result state as it was (empty if it was empty), shows the error
  glyph followed by \<open> Error: \<close> and the message as it is, and adds a history entry with
  count 0 and the failure glyph at the front.
\<close>

theorem failed_scrape_keeps_results:
  assumes "url \<noteq> []" and "selector \<noteq> []"
    and "dispatch F url fetcher_type opts = Fetched c fetched"
    and "fetched = Inl exc \<or> (\<exists>pg. fetched = Inr pg \<and> snd (query pg selector selector_type) = Inl exc)"
  shows "scrape F url fetcher_type selector selector_type opts = (False, [], exn_str exc)
       \<and> results (snd (scrape_button F now st url fetcher_type selector selector_type opts)) = results st
       \<and> fst (scrape_button F now st url fetcher_type selector selector_type opts)
           = [St_spinner (lit ''Scraping with '' @ fetcher_type @ lit ''...''),
              St_error (fail_glyph @ lit '' Error: '' @ exn_str exc)]
       \<and> history (snd (scrape_button F now st url fetcher_type selector selector_type opts))
           = take 20 (new_entry now url fetcher_type selector 0 fail_glyph # history st)
       \<and> entry_count (hd (history (snd (scrape_button F now st url fetcher_type selector selector_type opts)))) = 0
       \<and> entry_status (hd (history (snd (scrape_button F now st url fetcher_type selector selector_type opts))))
           = fail_glyph"
proof -
  have sc: "scrape F url fetcher_type selector selector_type opts = (False, [], exn_str exc)"
    using assms(3,4) by (auto intro: scrape_fetch_raises scrape_query_raises)
  have btn: "scrape_button F now st url fetcher_type selector selector_type opts =
     ([St_spinner (lit ''Scraping with '' @ fetcher_type @ lit ''...''),
       St_error (fail_glyph @ lit '' Error: '' @ exn_str exc)],
      add_to_history now st url fetcher_type selector 0 fail_glyph)"
    using assms(1,2) sc by (rule scrape_button_failure)
  show ?thesis
    unfolding btn using sc
    by (simp add: history_add_to_history results_add_to_history new_entry_def)
qed

text \<open>
  The theorem at the raising stealthy fetch and at the raising XPath query, from the
  initial state: the results stay \<open>None\<close>.
\<close>

theorem failed_scrape_keeps_results_witness:
  "lit ''https://a.example'' \<noteq> [] \<and> lit ''p::text'' \<noteq> []
   \<and> dispatch example_fetchers (lit ''https://a.example'') (lit ''StealthyFetcher'') Map.empty
       = Fetched (Call_StealthyFetcher_fetch (lit ''https://a.example'') (PyBool True) (PyBool False) (PyBool True))
           (Inl (Exn (lit ''Timeout 30000ms exceeded'')))
   \<and> scrape example_fetchers (lit ''https://a.example'') (lit ''StealthyFetcher'') (lit ''p::text'')
        (lit ''CSS'') Map.empty = (False, [], lit ''Timeout 30000ms exceeded'')
   \<and> results (snd (scrape_button example_fetchers (lit ''09:30:00'') initial_state
        (lit ''https://a.example'') (lit ''StealthyFetcher'') (lit ''p::text'') (lit ''CSS'') Map.empty)) = None
   \<and> map entry_count (history (snd (scrape_button example_fetchers (lit ''09:30:00'') initial_state
        (lit ''https://a.example'') (lit ''StealthyFetcher'') (lit ''p::text'') (lit ''CSS'') Map.empty))) = [0]
   \<and> snd (query example_page (lit ''p::text'') (lit ''XPath'')) = Inl (Exn (lit ''Invalid expression''))
   \<and> scrape example_fetchers (lit ''https://a.example'') (lit ''Fetcher'') (lit ''p::text'')
        (lit ''XPath'') Map.empty = (False, [], lit ''Invalid expression'')"
proof -
  have h1: "lit ''https://a.example'' \<noteq> []" by (simp add: lit_def)
  have h2: "lit ''p::text'' \<noteq> []" by (simp add: lit_def)
  have h3: "dispatch example_fetchers (lit ''https://a.example'') (lit ''StealthyFetcher'') Map.empty
       = Fetched (Call_StealthyFetcher_fetch (lit ''https://a.example'') (PyBool True) (PyBool False) (PyBool True))
           (Inl (Exn (lit ''Timeout 30000ms exceeded'')))"
    by (simp add: dispatch_def example_fetchers_def options_get_def lit_def)
  have h4: "Inl (Exn (lit ''Timeout 30000ms exceeded'')) = Inl (Exn (lit ''Timeout 30000ms exceeded''))
      \<or> (\<exists>pg. (Inl (Exn (lit ''Timeout 30000ms exceeded'')) :: exn + page) = Inr pg
            \<and> snd (query pg (lit ''p::text'') (lit ''CSS'')) = Inl (Exn (lit ''Timeout 30000ms exceeded'')))"
    by simp
  have g3: "dispatch example_fetchers (lit ''https://a.example'') (lit ''Fetcher'') Map.empty
       = Fetched (Call_Fetcher_get (lit ''https://a.example'') (PyBool True) (PyInt 30)) (Inr example_page)"
    by (simp add: dispatch_def example_fetchers_def options_get_def)
  have q: "snd (query example_page (lit ''p::text'') (lit ''XPath'')) = Inl (Exn (lit ''Invalid expression''))"
    by (simp add: query_def example_page_def lit_def)
  then have g4: "(Inr example_page :: exn + page) = Inl (Exn (lit ''Invalid expression''))
      \<or> (\<exists>pg. (Inr example_page :: exn + page) = Inr pg
            \<and> snd (query pg (lit ''p::text'') (lit ''XPath'')) = Inl (Exn (lit ''Invalid expression'')))"
    by simp
  show ?thesis
    using h1 h2 h3 q
      failed_scrape_keeps_results [OF h1 h2 h3 h4, of "lit ''09:30:00''" initial_state]
      failed_scrape_keeps_results [OF h1 h2 g3 g4, of "lit ''09:30:00''" initial_state]
    by (simp add: initial_state_def new_entry_def)
qed

text \<open>
  Claim C8. When \<open>scrape\<close> succeeds, the handler sets the result state to the returned
  list, whatever the state held before (the state afterwards does not depend on the
  earlier results), and adds at the front of the history an entry with the success glyph
  whose count is the length of the returned list.
\<close>

theorem successful_scrape_replaces_results:
  assumes "url \<noteq> []" and "selector \<noteq> []"
    and "scrape F url fetcher_type selector selector_type opts = (True, data, error)"
  shows "results (snd (scrape_button F now st url fetcher_type selector selector_type opts)) = Some data
       \<and> snd (scrape_button F now (st\<lparr>results := previous\<rparr>) url fetcher_type selector selector_type opts)
           = snd (scrape_button F now st url fetcher_type selector selector_type opts)
       \<and> history (snd (scrape_button F now st url fetcher_type selector selector_type opts))
           = take 20 (new_entry now url fetcher_type selector (length data) ok_glyph # history st)
       \<and> entry_count (hd (history (snd (scrape_button F now st url fetcher_type selector selector_type opts))))
           = length data
       \<and> entry_status (hd (history (snd (scrape_button F now st url fetcher_type selector selector_type opts))))
           = ok_glyph"
proof -
  have btn: "scrape_button F now s url fetcher_type selector selector_type opts =
     ([St_spinner (lit ''Scraping with '' @ fetcher_type @ lit ''...''),
       St_success (ok_glyph @ lit '' Found '' @ str_nat (length data) @ lit '' items!'')],
      add_to_history now (s\<lparr>results := Some data\<rparr>) url fetcher_type selector (length data) ok_glyph)" for s
    using assms by (rule scrape_button_success)
  show ?thesis
    unfolding btn
    by (simp add: history_add_to_history results_add_to_history new_entry_def)
qed

text \<open>
  The theorem at the example page, over a state that held an earlier result.
\<close>

theorem successful_scrape_replaces_results_witness:
  "lit ''https://a.example'' \<noteq> [] \<and> lit ''p::text'' \<noteq> []
   \<and> scrape example_fetchers (lit ''https://a.example'') (lit ''Fetcher'') (lit ''p::text'')
        (lit ''CSS'') Map.empty
       = (True, [[(lit ''text'', lit ''one'')], [(lit ''text'', lit ''two'')]], [])
   \<and> results (snd (scrape_button example_fetchers (lit ''09:30:00'') example_state
        (lit ''https://a.example'') (lit ''Fetcher'') (lit ''p::text'') (lit ''CSS'') Map.empty))
       = Some [[(lit ''text'', lit ''one'')], [(lit ''text'', lit ''two'')]]
   \<and> map entry_count (history (snd (scrape_button example_fetchers (lit ''09:30:00'') example_state
        (lit ''https://a.example'') (lit ''Fetcher'') (lit ''p::text'') (lit ''CSS'') Map.empty)))
       = [2, 1]"
proof -
  have h1: "lit ''https://a.example'' \<noteq> []" by (simp add: lit_def)
  have h2: "lit ''p::text'' \<noteq> []" by (simp add: lit_def)
  have d: "dispatch example_fetchers (lit ''https://a.example'') (lit ''Fetcher'') Map.empty
       = Fetched (Call_Fetcher_get (lit ''https://a.example'') (PyBool True) (PyInt 30)) (Inr example_page)"
    by (simp add: dispatch_def example_fetchers_def options_get_def)
  have q: "snd (query example_page (lit ''p::text'') (lit ''CSS'')) = Inr example_elements"
    by (simp add: query_def example_page_def)
  have l: "scrape_loop (lit ''p::text'') example_elements []
      = [[(lit ''text'', lit ''one'')], [(lit ''text'', lit ''two'')]]"
    by (simp add: example_elements_def scrape_step_def strip_def isspace_def lit_def)
  have h3: "scrape example_fetchers (lit ''https://a.example'') (lit ''Fetcher'') (lit ''p::text'')
        (lit ''CSS'') Map.empty
       = (True, [[(lit ''text'', lit ''one'')], [(lit ''text'', lit ''two'')]], [])"
    using scrape_returns_loop [OF d q] by (simp only: l)
  show ?thesis
    using h1 h2 h3
      successful_scrape_replaces_results [OF h1 h2 h3, of "lit ''09:30:00''" example_state]
    by (simp add: example_state_def new_entry_def)
qed

section \<open>JSON export and parse\<close>

lemma hex_value_hex_digit: "d < 16 \<Longrightarrow> hex_value (hex_digit d) = Some d"
  by (auto simp: hex_value_def hex_digit_def)

lemma cons_char_simps [simp]:
  "cons_char c None = None"
  "cons_char c (Some (s, rest)) = Some (c # s, rest)"
  by (simp_all add: cons_char_def)

lemma scanstring_escape_char: "scanstring (escape_char c @ X) = cons_char c (scanstring X)"
proof (cases "c < 0x20")
  case False
  then show ?thesis
    by (auto simp: escape_char_def backslash_def)
next
  case True
  show ?thesis
  proof (cases "c \<in> {0x0A, 0x0D, 0x09, 0x08, 0x0C}")
    case True
    then show ?thesis
      by (auto simp: escape_char_def backslash_def)
  next
    case False
    have d: "c div 16 < 16" "c mod 16 < 16" using True by simp_all
    have "decode_uXXXX [0x30, 0x30, hex_digit (c div 16), hex_digit (c mod 16)] = Some c"
      using d by (simp add: hex_value_hex_digit) (simp add: hex_value_def)
    with True False show ?thesis
      by (simp add: escape_char_def)
  qed
qed

lemma scanstring_escaped:
  "scanstring (concat (map escape_char s) @ 0x22 # rest) = Some (s, rest)"
  by (induction s) (simp_all add: scanstring_escape_char)

lemma parse_string_encoded: "parse_string (encode_basestring s @ rest) = Some (s, rest)"
  by (simp add: parse_string_def encode_basestring_def scanstring_escaped)

lemma skip_ws_not_ws: "\<not> is_ws c \<Longrightarrow> skip_ws (c # s) = c # s"
  by (simp add: skip_ws_def)

lemma skip_ws_newline_indent: "skip_ws (newline_indent n @ s) = skip_ws s"
  by (simp add: skip_ws_def newline_indent_def is_ws_def dropWhile_append3 dropWhile_append)

lemma skip_ws_space: "skip_ws (0x20 # s) = skip_ws s"
  by (simp add: skip_ws_def is_ws_def)

lemma encode_basestring_Cons: "encode_basestring s = 0x22 # tl (encode_basestring s)"
  by (simp add: encode_basestring_def)

lemma skip_ws_encode_basestring: "skip_ws (encode_basestring s @ r) = encode_basestring s @ r"
  by (subst (1 2) encode_basestring_Cons) (simp add: skip_ws_not_ws is_ws_def)

lemma parse_pairs_member:
  "parse_pairs (encode_member (k, v) @ Y) =
     (case skip_ws Y of
        [] \<Rightarrow> None
      | c # r4 \<Rightarrow>
          if c = 0x7D then Some ([(k, v)], r4)
          else if c = 0x2C then
            (case parse_pairs (skip_ws r4) of
               None \<Rightarrow> None
             | Some (ps, r5) \<Rightarrow> Some ((k, v) # ps, r5))
          else None)"
  by (subst parse_pairs.simps)
     (simp add: encode_member_def parse_string_encoded skip_ws_not_ws is_ws_def skip_ws_space
        skip_ws_encode_basestring)

lemma encode_member_quote: "\<exists>t. encode_member kv = 0x22 # t"
  by (simp add: encode_member_def encode_basestring_def)

lemma join_with_members_quote:
  "ps \<noteq> [] \<Longrightarrow> \<exists>t. join_with sep (map encode_member ps) = 0x22 # t"
proof (cases ps)
  case Nil
  assume "ps \<noteq> []"
  with Nil show ?thesis by simp
next
  case (Cons p qs)
  obtain t where "encode_member p = 0x22 # t" using encode_member_quote by blast
  with Cons show ?thesis by (cases qs) simp_all
qed

lemma parse_pairs_join_withed:
  "ps \<noteq> [] \<Longrightarrow>
   parse_pairs (join_with (0x2C # newline_indent n) (map encode_member ps) @ newline_indent m @ 0x7D # rest)
     = Some (ps, rest)"
proof (induction ps rule: list_nonempty_induct)
  case (single p)
  obtain k v where p: "p = (k, v)" by (cases p)
  show ?case
    by (simp add: p parse_pairs_member skip_ws_newline_indent skip_ws_not_ws is_ws_def)
next
  case (cons p ps)
  obtain k v where p: "p = (k, v)" by (cases p)
  from cons.hyps obtain q qs where ps: "ps = q # qs" by (cases ps) auto
  obtain t where t: "join_with (0x2C # newline_indent n) (map encode_member ps) = 0x22 # t"
    using join_with_members_quote [OF cons.hyps] by blast
  have sk: "skip_ws (join_with (0x2C # newline_indent n) (map encode_member ps) @ Z)
      = join_with (0x2C # newline_indent n) (map encode_member ps) @ Z" for Z
    unfolding t by (simp add: skip_ws_not_ws is_ws_def)
  have "join_with (0x2C # newline_indent n) (map encode_member (p # ps)) @ newline_indent m @ 0x7D # rest
      = encode_member (k, v) @ 0x2C # newline_indent n
          @ (join_with (0x2C # newline_indent n) (map encode_member ps) @ newline_indent m @ 0x7D # rest)"
    by (simp add: ps p)
  then show ?case
    by (simp only: parse_pairs_member)
       (simp add: skip_ws_not_ws is_ws_def skip_ws_newline_indent sk cons.IH p)
qed

lemma parse_object_encoded:
  "parse_object (tl (iterencode_dict d m) @ rest) = Some (d, rest)"
proof (cases "d = []")
  case True
  then show ?thesis
    by (simp add: iterencode_dict_def parse_object_def skip_ws_not_ws is_ws_def)
next
  case False
  let ?body = "join_with (0x2C # newline_indent (Suc m)) (map encode_member d)"
  obtain t where t: "?body = 0x22 # t"
    using join_with_members_quote [OF False] by blast
  have "tl (iterencode_dict d m) @ rest = newline_indent (Suc m) @ ?body @ newline_indent m @ 0x7D # rest"
    using False by (simp add: iterencode_dict_def)
  moreover have "skip_ws (newline_indent (Suc m) @ ?body @ newline_indent m @ 0x7D # rest)
      = 0x22 # t @ newline_indent m @ 0x7D # rest"
    by (simp add: skip_ws_newline_indent t skip_ws_not_ws is_ws_def)
  ultimately have "parse_object (tl (iterencode_dict d m) @ rest)
      = parse_pairs (0x22 # t @ newline_indent m @ 0x7D # rest)"
    by (simp add: parse_object_def)
  also have "0x22 # t @ newline_indent m @ 0x7D # rest = ?body @ newline_indent m @ 0x7D # rest"
    by (simp add: t)
  finally show ?thesis
    by (simp only: parse_pairs_join_withed [OF False])
qed

lemma iterencode_dict_brace: "\<exists>t. iterencode_dict d m = 0x7B # t"
  by (simp add: iterencode_dict_def)

lemma join_with_dicts_brace:
  "ds \<noteq> [] \<Longrightarrow> \<exists>t. join_with sep (map (\<lambda>d. iterencode_dict d n) ds) = 0x7B # t"
proof (cases ds)
  case Nil
  assume "ds \<noteq> []"
  with Nil show ?thesis by simp
next
  case (Cons e es)
  obtain t where "iterencode_dict e n = 0x7B # t" using iterencode_dict_brace by blast
  with Cons show ?thesis by (cases es) simp_all
qed

lemma parse_objects_dict:
  "parse_objects (iterencode_dict d m @ Y) =
     (case skip_ws Y of
        [] \<Rightarrow> None
      | c # r2 \<Rightarrow>
          if c = 0x5D then Some ([d], r2)
          else if c = 0x2C then
            (case parse_objects (skip_ws r2) of
               None \<Rightarrow> None
             | Some (ds, r3) \<Rightarrow> Some (d # ds, r3))
          else None)"
proof -
  obtain t where t: "iterencode_dict d m = 0x7B # t" using iterencode_dict_brace by blast
  then have "parse_object (t @ Y) = Some (d, Y)"
    using parse_object_encoded [of d m Y] by simp
  then show ?thesis
    by (subst parse_objects.simps) (simp add: t)
qed

lemma parse_objects_join_withed:
  "ds \<noteq> [] \<Longrightarrow>
   parse_objects (join_with (0x2C # newline_indent n) (map (\<lambda>d. iterencode_dict d n) ds)
                    @ newline_indent m @ 0x5D # rest)
     = Some (ds, rest)"
proof (induction ds rule: list_nonempty_induct)
  case (single d)
  show ?case
    by (simp add: parse_objects_dict skip_ws_newline_indent skip_ws_not_ws is_ws_def)
next
  case (cons d ds)
  from cons.hyps obtain e es where ds: "ds = e # es" by (cases ds) auto
  obtain t where t: "join_with (0x2C # newline_indent n) (map (\<lambda>d. iterencode_dict d n) ds) = 0x7B # t"
    using join_with_dicts_brace [OF cons.hyps] by blast
  have sk: "skip_ws (join_with (0x2C # newline_indent n) (map (\<lambda>d. iterencode_dict d n) ds) @ Z)
      = join_with (0x2C # newline_indent n) (map (\<lambda>d. iterencode_dict d n) ds) @ Z" for Z
    unfolding t by (simp add: skip_ws_not_ws is_ws_def)
  have "join_with (0x2C # newline_indent n) (map (\<lambda>d. iterencode_dict d n) (d # ds)) @ newline_indent m @ 0x5D # rest
      = iterencode_dict d n @ 0x2C # newline_indent n
          @ (join_with (0x2C # newline_indent n) (map (\<lambda>d. iterencode_dict d n) ds) @ newline_indent m @ 0x5D # rest)"
    by (simp add: ds)
  then show ?case
    by (simp only: parse_objects_dict)
       (simp add: skip_ws_not_ws is_ws_def skip_ws_newline_indent sk cons.IH)
qed

lemma json_loads_json_dumps: "json_loads (json_dumps data) = Some data"
proof (cases "data = []")
  case True
  then show ?thesis
    by (simp add: json_loads_def json_dumps_def iterencode_list_def parse_array_def
        skip_ws_not_ws is_ws_def skip_ws_def)
next
  case False
  let ?body = "join_with (0x2C # newline_indent (Suc 0)) (map (\<lambda>d. iterencode_dict d (Suc 0)) data)"
  obtain t where t: "?body = 0x7B # t"
    using join_with_dicts_brace [OF False] by blast
  have "skip_ws (newline_indent (Suc 0) @ ?body @ newline_indent 0 @ [0x5D])
      = 0x7B # t @ newline_indent 0 @ [0x5D]"
    by (simp add: skip_ws_newline_indent t skip_ws_not_ws is_ws_def)
  then have "parse_array (newline_indent (Suc 0) @ ?body @ newline_indent 0 @ [0x5D])
      = parse_objects (0x7B # t @ newline_indent 0 @ [0x5D])"
    by (simp add: parse_array_def)
  also have "0x7B # t @ newline_indent 0 @ [0x5D] = ?body @ newline_indent 0 @ [0x5D]"
    by (simp add: t)
  finally have pa: "parse_array (newline_indent (Suc 0) @ ?body @ newline_indent 0 @ [0x5D])
      = Some (data, [])"
    by (simp only: parse_objects_join_withed [OF False])
  have "json_dumps data = 0x5B # newline_indent (Suc 0) @ ?body @ newline_indent 0 @ [0x5D]"
    using False by (simp add: json_dumps_def iterencode_list_def)
  then show ?thesis
    by (simp add: json_loads_def skip_ws_not_ws is_ws_def pa) (simp add: skip_ws_def)
qed

subsection \<open>UTF-8\<close>

lemma div_bound: "c < k * n \<Longrightarrow> c div n < (k::nat)"
  by (rule less_mult_imp_div_less)

lemma recompose2: "(c div 64) * 64 + c mod 64 = (c::nat)"
  by simp

lemma recompose3: "((c div 4096) * 64 + c div 64 mod 64) * 64 + c mod 64 = (c::nat)"
proof -
  have "c div 4096 = c div 64 div 64" by (simp add: div_mult2_eq)
  then show ?thesis by simp
qed

lemma recompose4:
  "(((c div 262144) * 64 + c div 4096 mod 64) * 64 + c div 64 mod 64) * 64 + c mod 64 = (c::nat)"
proof -
  have a: "c div 4096 = c div 64 div 64" by (simp add: div_mult2_eq)
  have b: "c div 262144 = c div 64 div 64 div 64" by (simp add: div_mult2_eq)
  show ?thesis unfolding a b by simp
qed

lemma lead2: "0x80 \<le> c \<Longrightarrow> c < 0x800 \<Longrightarrow> 2 \<le> c div 64 \<and> c div 64 < (32::nat)"
proof
  assume "0x80 \<le> c"
  then have "128 div 64 \<le> c div 64" by (intro div_le_mono) simp
  then show "2 \<le> c div 64" by simp
next
  assume "c < 0x800"
  then show "c div 64 < 32" by (intro less_mult_imp_div_less) simp
qed

lemma lead3: "c < 0x10000 \<Longrightarrow> c div 4096 < (16::nat)"
  by (intro less_mult_imp_div_less) simp

lemma lead4: "c < 0x110000 \<Longrightarrow> c div 262144 < (5::nat)"
  by (intro less_mult_imp_div_less) simp

declare utf8_decode.simps(2) [simp del]

lemma utf8_decode_1:
  "b0 < 0x80 \<Longrightarrow> utf8_decode (b0 # r) = map_option (Cons b0) (utf8_decode r)"
  by (simp add: utf8_decode.simps(2))

lemma utf8_decode_2:
  "0xC2 \<le> b0 \<Longrightarrow> b0 < 0xE0 \<Longrightarrow> is_cont b1 \<Longrightarrow>
   utf8_decode (b0 # b1 # r) = map_option (Cons ((b0 - 0xC0) * 64 + (b1 - 0x80))) (utf8_decode r)"
  by (simp add: utf8_decode.simps(2))

lemma utf8_decode_3:
  "0xE0 \<le> b0 \<Longrightarrow> b0 < 0xF0 \<Longrightarrow> is_cont b1 \<Longrightarrow> is_cont b2 \<Longrightarrow>
   0x800 \<le> ((b0 - 0xE0) * 64 + (b1 - 0x80)) * 64 + (b2 - 0x80) \<Longrightarrow>
   utf8_decode (b0 # b1 # b2 # r)
     = map_option (Cons (((b0 - 0xE0) * 64 + (b1 - 0x80)) * 64 + (b2 - 0x80))) (utf8_decode r)"
  by (simp add: utf8_decode.simps(2))

lemma utf8_decode_4:
  "0xF0 \<le> b0 \<Longrightarrow> b0 < 0xF5 \<Longrightarrow> is_cont b1 \<Longrightarrow> is_cont b2 \<Longrightarrow> is_cont b3 \<Longrightarrow>
   0x10000 \<le> (((b0 - 0xF0) * 64 + (b1 - 0x80)) * 64 + (b2 - 0x80)) * 64 + (b3 - 0x80) \<Longrightarrow>
   (((b0 - 0xF0) * 64 + (b1 - 0x80)) * 64 + (b2 - 0x80)) * 64 + (b3 - 0x80) < 0x110000 \<Longrightarrow>
   utf8_decode (b0 # b1 # b2 # b3 # r)
     = map_option (Cons ((((b0 - 0xF0) * 64 + (b1 - 0x80)) * 64 + (b2 - 0x80)) * 64 + (b3 - 0x80)))
         (utf8_decode r)"
  by (simp add: utf8_decode.simps(2))

lemma is_cont_low6: "is_cont (0x80 + n mod 64)"
proof -
  have "n mod 64 < 64" by simp
  then show ?thesis unfolding is_cont_def by linarith
qed

lemma utf8_decode_char:
  assumes "utf8_char c = Some bs"
  shows "utf8_decode (bs @ rest) = map_option (Cons c) (utf8_decode rest)"
proof -
  consider (one) "c < 0x80" | (two) "0x80 \<le> c" "c < 0x800" | (three) "0x800 \<le> c" "c < 0x10000"
    | (four) "0x10000 \<le> c" "c < 0x110000"
    using assms unfolding utf8_char_def by (cases "c < 0x110000") (simp, linarith, simp)
  then show ?thesis
  proof cases
    case one
    with assms have "bs = [c]" by (simp add: utf8_char_def)
    with one show ?thesis by (simp add: utf8_decode_1)
  next
    case two
    with assms have bs: "bs = [0xC0 + c div 64, 0x80 + c mod 64]"
      by (simp add: utf8_char_def)
    from lead2 [OF two] have l: "0xC2 \<le> 0xC0 + c div 64" "0xC0 + c div 64 < 0xE0"
      by simp_all
    have v: "(0xC0 + c div 64 - 0xC0) * 64 + (0x80 + c mod 64 - 0x80) = c"
      by (simp add: recompose2)
    show ?thesis
      unfolding bs using utf8_decode_2 [OF l is_cont_low6, of c rest]
      by (simp only: v append_Cons append_Nil)
  next
    case three
    with assms have bs: "bs = [0xE0 + c div 4096, 0x80 + c div 64 mod 64, 0x80 + c mod 64]"
      by (simp add: utf8_char_def split: if_splits)
    from lead3 [OF three(2)] have l: "0xE0 \<le> 0xE0 + c div 4096" "0xE0 + c div 4096 < 0xF0"
      by simp_all
    have v: "((0xE0 + c div 4096 - 0xE0) * 64 + (0x80 + c div 64 mod 64 - 0x80)) * 64
        + (0x80 + c mod 64 - 0x80) = c"
      using recompose3 [of c] by simp
    have ge: "0x800 \<le> ((0xE0 + c div 4096 - 0xE0) * 64 + (0x80 + c div 64 mod 64 - 0x80)) * 64
        + (0x80 + c mod 64 - 0x80)"
      unfolding v by (rule three(1))
    show ?thesis
      unfolding bs using utf8_decode_3 [OF l is_cont_low6 is_cont_low6 ge, of rest]
      by (simp only: v append_Cons append_Nil)
  next
    case four
    with assms have bs: "bs = [0xF0 + c div 262144, 0x80 + c div 4096 mod 64,
        0x80 + c div 64 mod 64, 0x80 + c mod 64]"
      by (simp add: utf8_char_def split: if_splits)
    from lead4 [OF four(2)] have l: "0xF0 \<le> 0xF0 + c div 262144" "0xF0 + c div 262144 < 0xF5"
      by simp_all
    have v: "(((0xF0 + c div 262144 - 0xF0) * 64 + (0x80 + c div 4096 mod 64 - 0x80)) * 64
        + (0x80 + c div 64 mod 64 - 0x80)) * 64 + (0x80 + c mod 64 - 0x80) = c"
      using recompose4 [of c] by simp
    have ge: "0x10000 \<le> (((0xF0 + c div 262144 - 0xF0) * 64 + (0x80 + c div 4096 mod 64 - 0x80)) * 64
        + (0x80 + c div 64 mod 64 - 0x80)) * 64 + (0x80 + c mod 64 - 0x80)"
      unfolding v by (rule four(1))
    have lt: "(((0xF0 + c div 262144 - 0xF0) * 64 + (0x80 + c div 4096 mod 64 - 0x80)) * 64
        + (0x80 + c div 64 mod 64 - 0x80)) * 64 + (0x80 + c mod 64 - 0x80) < 0x110000"
      unfolding v by (rule four(2))
    show ?thesis
      unfolding bs
      using utf8_decode_4 [OF l is_cont_low6 is_cont_low6 is_cont_low6 ge lt, of rest]
      by (simp only: v append_Cons append_Nil)
  qed
qed

lemma utf8_decode_encode: "utf8_encode s = Inr bs \<Longrightarrow> utf8_decode bs = Some s"
proof (induction s arbitrary: bs)
  case Nil
  then show ?case by simp
next
  case (Cons c s)
  from Cons.prems obtain cb rest where c: "utf8_char c = Some cb" and r: "utf8_encode s = Inr rest"
    and bs: "bs = cb @ rest"
    by (auto split: option.splits sum.splits)
  show ?case
    unfolding bs utf8_decode_char [OF c] by (simp add: Cons.IH [OF r])
qed

lemma utf8_char_encodable: "encodable c \<Longrightarrow> \<exists>bs. utf8_char c = Some bs"
  by (auto simp: encodable_def utf8_char_def)

lemma utf8_encode_total: "\<forall>c \<in> set s. encodable c \<Longrightarrow> \<exists>bs. utf8_encode s = Inr bs"
proof (induction s)
  case Nil
  show ?case by simp
next
  case (Cons c s)
  then obtain cb rest where "utf8_char c = Some cb" "utf8_encode s = Inr rest"
    using utf8_char_encodable [of c] by auto
  then show ?case by simp
qed

subsection \<open>The export of a record list\<close>

lemma encodable_ascii: "c < 0x80 \<Longrightarrow> encodable c"
  by (simp add: encodable_def)

lemma hex_digit_ascii: "d < 16 \<Longrightarrow> hex_digit d < 0x80"
  by (simp add: hex_digit_def)

lemma escape_char_encodable: "encodable c \<Longrightarrow> list_all encodable (escape_char c)"
proof (cases "c < 0x20")
  case True
  have "c div 16 < 16" "c mod 16 < 16" using True by simp_all
  then have "hex_digit (c div 16) < 0x80" "hex_digit (c mod 16) < 0x80"
    by (simp_all add: hex_digit_ascii)
  with True have "list_all (\<lambda>x. x < 0x80) (escape_char c)"
    by (simp add: escape_char_def)
  then show ?thesis
    by (simp add: list_all_iff encodable_ascii)
next
  case False
  assume "encodable c"
  with False show ?thesis
    by (simp add: escape_char_def encodable_ascii)
qed

lemma concat_escape_encodable:
  "list_all encodable s \<Longrightarrow> list_all encodable (concat (map escape_char s))"
  by (induction s) (simp_all add: escape_char_encodable)

lemma encode_basestring_encodable:
  "list_all encodable s \<Longrightarrow> list_all encodable (encode_basestring s)"
  by (simp add: encode_basestring_def concat_escape_encodable encodable_ascii)

lemma newline_indent_encodable: "list_all encodable (newline_indent n)"
  by (simp add: newline_indent_def list_all_iff encodable_ascii)

lemma separator_encodable: "list_all encodable (0x2C # newline_indent n)"
  by (simp add: newline_indent_encodable encodable_ascii)

lemma join_with_encodable:
  "list_all encodable sep \<Longrightarrow> list_all (list_all encodable) parts \<Longrightarrow>
   list_all encodable (join_with sep parts)"
  by (induction sep parts rule: join_with.induct) simp_all

lemma encode_member_encodable:
  "list_all encodable (fst kv) \<Longrightarrow> list_all encodable (snd kv) \<Longrightarrow>
   list_all encodable (encode_member kv)"
  by (simp add: encode_member_def encode_basestring_encodable encodable_ascii)

lemma iterencode_dict_encodable:
  assumes "list_all (\<lambda>kv. list_all encodable (fst kv) \<and> list_all encodable (snd kv)) d"
  shows "list_all encodable (iterencode_dict d n)"
proof -
  have "list_all encodable (encode_member kv)" if "kv \<in> set d" for kv
    using assms that by (intro encode_member_encodable) (simp_all add: list_all_iff)
  then have "list_all (list_all encodable) (map encode_member d)"
    by (simp add: list_all_iff)
  then have "list_all encodable (join_with (0x2C # newline_indent (n + 1)) (map encode_member d))"
    using separator_encodable by (rule join_with_encodable [rotated])
  then show ?thesis
    by (simp add: iterencode_dict_def newline_indent_encodable encodable_ascii)
qed

lemma json_dumps_encodable:
  assumes "encodable_data data"
  shows "list_all encodable (json_dumps data)"
proof -
  have "list_all encodable (iterencode_dict d (0 + 1))" if "d \<in> set data" for d
    using assms that by (intro iterencode_dict_encodable) (simp add: encodable_data_def list_all_iff)
  then have "list_all (list_all encodable) (map (\<lambda>d. iterencode_dict d (0 + 1)) data)"
    by (simp add: list_all_iff)
  then have "list_all encodable
      (join_with (0x2C # newline_indent (0 + 1)) (map (\<lambda>d. iterencode_dict d (0 + 1)) data))"
    using separator_encodable by (rule join_with_encodable [rotated])
  then show ?thesis
    by (simp add: json_dumps_def iterencode_list_def newline_indent_encodable encodable_ascii)
qed

lemma replicate_2: "replicate 2 x = [x, x]"
  by (simp add: numeral_2_eq_2)

lemma replicate_4: "replicate 4 x = [x, x, x, x]"
  by (simp add: numeral_eq_Suc)

text \<open>
  Claim C6, as stated, covers every record list. A Python string may hold a surrogate code
  point, which the strict UTF-8 codec refuses: on a record whose text is the single code
  point U+D800, \<open>to_json\<close> raises \<open>UnicodeEncodeError\<close>, so there is no export to parse
  back.
\<close>

theorem to_json_surrogate_raises:
  "to_json [[(lit ''text'', [0xD800])]] = Inl (UnicodeEncodeError 0xD800)"
proof -
  have d: "json_dumps [[(lit ''text'', [0xD800])]] =
      [91, 10, 32, 32, 123, 10, 32, 32, 32, 32, 34, 116, 101, 120, 116, 34, 58, 32, 34, 55296, 34,
       10, 32, 32, 125, 10, 93]"
    by (simp add: json_dumps_def iterencode_list_def iterencode_dict_def newline_indent_def
        encode_member_def encode_basestring_def escape_char_def lit_def
        replicate_2 replicate_4)
  show ?thesis
    unfolding to_json_def d by (simp add: utf8_char_def)
qed

text \<open>
  Claim C6, amended. For every record list whose keys and values hold only code points
  that UTF-8 can encode (none from U+D800 to U+DFFF), \<open>to_json\<close> returns bytes, and
  decoding and parsing these bytes as JSON gives back the record list itself: the same
  records in the same order, each with the same keys and values in the same order.
\<close>

theorem to_json_round_trip:
  assumes "encodable_data data"
  shows "\<exists>bs. to_json data = Inr bs \<and> json_loads_bytes bs = Some data"
proof -
  have "\<forall>c \<in> set (json_dumps data). encodable c"
    using json_dumps_encodable [OF assms] by (simp add: list_all_iff)
  then obtain bs where bs: "utf8_encode (json_dumps data) = Inr bs"
    using utf8_encode_total by blast
  then have "utf8_decode bs = Some (json_dumps data)"
    by (rule utf8_decode_encode)
  then have "json_loads_bytes bs = Some data"
    by (simp add: json_loads_bytes_def json_loads_json_dumps)
  with bs show ?thesis by (simp add: to_json_def)
qed

text \<open>
  The theorem at the example records: the quote, the newline and the control character
  are escaped, the other code points are written in two, three and four bytes.
\<close>

theorem to_json_round_trip_witness:
  "encodable_data example_records
   \<and> to_json example_records =
       Inr [91, 10, 32, 32, 123, 10, 32, 32, 32, 32, 34, 116, 101, 120, 116, 34, 58, 32,
            34, 92, 34, 92, 110, 92, 117, 48, 48, 49, 102, 195, 169, 228, 184, 173,
            240, 159, 152, 128, 34, 44, 10, 32, 32, 32, 32, 34, 104, 116, 109, 108, 34,
            58, 32, 34, 34, 10, 32, 32, 125, 44, 10, 32, 32, 123, 125, 10, 93]
   \<and> json_loads_bytes
        [91, 10, 32, 32, 123, 10, 32, 32, 32, 32, 34, 116, 101, 120, 116, 34, 58, 32,
         34, 92, 34, 92, 110, 92, 117, 48, 48, 49, 102, 195, 169, 228, 184, 173,
         240, 159, 152, 128, 34, 44, 10, 32, 32, 32, 32, 34, 104, 116, 109, 108, 34,
         58, 32, 34, 34, 10, 32, 32, 125, 44, 10, 32, 32, 123, 125, 10, 93]
       = Some example_records"
proof -
  have h: "encodable_data example_records"
    by (simp add: encodable_data_def example_records_def encodable_def lit_def)
  have d: "json_dumps example_records =
      [91, 10, 32, 32, 123, 10, 32, 32, 32, 32, 34, 116, 101, 120, 116, 34, 58,
       32, 34, 92, 34, 92, 110, 92, 117, 48, 48, 49, 102, 233, 20013, 128512, 34,
       44, 10, 32, 32, 32, 32, 34, 104, 116, 109, 108, 34, 58, 32, 34, 34, 10,
       32, 32, 125, 44, 10, 32, 32, 123, 125, 10, 93]"
    by (simp add: json_dumps_def iterencode_list_def iterencode_dict_def newline_indent_def
        encode_member_def encode_basestring_def escape_char_def hex_digit_def example_records_def
        replicate_2 replicate_4 lit_def)
  have e: "to_json example_records =
       Inr [91, 10, 32, 32, 123, 10, 32, 32, 32, 32, 34, 116, 101, 120, 116, 34, 58, 32,
            34, 92, 34, 92, 110, 92, 117, 48, 48, 49, 102, 195, 169, 228, 184, 173,
            240, 159, 152, 128, 34, 44, 10, 32, 32, 32, 32, 34, 104, 116, 109, 108, 34,
            58, 32, 34, 34, 10, 32, 32, 125, 44, 10, 32, 32, 123, 125, 10, 93]"
    unfolding to_json_def d by (simp add: utf8_char_def)
  from to_json_round_trip [OF h] obtain bs
    where "to_json example_records = Inr bs" "json_loads_bytes bs = Some example_records"
    by blast
  with e h show ?thesis by simp
qed

end
